theory Spec2Isabelle
  imports Main
begin

section \<open>The credit ledger: data model\<close>

text \<open>
  The ledger is two tables of the database schema
  (\<^verbatim>\<open>supabase/migrations/20240101000001_credits-system.sql\<close>):
  \<^verbatim>\<open>credit_batches\<close> and \<^verbatim>\<open>credit_usage\<close>, three stored procedures
  (\<^verbatim>\<open>deduct_credits\<close>, \<^verbatim>\<open>add_credits\<close>, \<^verbatim>\<open>add_plan_credits\<close>) and the
  client-side balance query \<^verbatim>\<open>getRemainingCredits\<close> of
  \<^verbatim>\<open>src/services/pdfService.ts\<close>.

  Conventions of the embedding.
  \<^item> A table is the list of its rows in insertion order; \<^verbatim>\<open>INSERT\<close> appends.
  \<^item> A \<^verbatim>\<open>UUID\<close> is a natural number. \<^verbatim>\<open>gen_random_uuid()\<close> is a counter kept in
    the ledger (\<open>next_uuid\<close>), so that a generated identifier is one that was never
    generated before.
  \<^item> An \<^verbatim>\<open>INTEGER\<close> (column, parameter, PL/pgSQL variable) is an \<open>int\<close>, and the
    range of the type is written out: PostgreSQL does not wrap around, it raises
    \<^verbatim>\<open>integer out of range\<close> when the result of an addition or subtraction leaves
    \<open>-2^31 .. 2^31 - 1\<close> (\<open>int4\<close>). The JavaScript numbers of the balance query are
    integers without a bound.
  \<^item> A \<^verbatim>\<open>TIMESTAMP WITH TIME ZONE\<close> is the number of microseconds since
    2000-01-01 00:00 UTC, as PostgreSQL stores it, and the sum of a timestamp and
    an interval raises \<^verbatim>\<open>timestamp out of range\<close> when it leaves the range of the
    type (\<open>timestamptz_range\<close>: 4714 BC to the end of 294276 AD). A day of an
    \<^verbatim>\<open>interval\<close> is 24 hours (session time zone UTC). \<^verbatim>\<open>now()\<close> is a parameter of
    every call: it is constant within one call, and it is a reading of the server's
    clock, more than 365 days before the end of the range, so that of the sums
    that \<open>add_credits\<close> forms only the one with the caller's offset can leave it.
  \<^item> Parameters are not \<^verbatim>\<open>NULL\<close>, except the optional \<^verbatim>\<open>p_assignment_id\<close>, and
    the identifiers passed as owner and as assignment reference rows that exist, as the
    foreign keys of the two tables require.
  \<^item> Calls are made one after the other; a call that raises is rolled back as a whole,
    so that an error result carries no ledger.
\<close>

type_synonym uuid = nat
type_synonym timestamptz = int

record credit_batch_row =
  b_id :: uuid                   \<comment> \<open>\<^verbatim>\<open>id UUID PRIMARY KEY\<close>\<close>
  b_user_id :: uuid              \<comment> \<open>\<^verbatim>\<open>user_id\<close>\<close>
  credits :: int
  used_credits :: int
  subscription_type :: string
  expires_at :: timestamptz
  b_created_at :: timestamptz    \<comment> \<open>\<^verbatim>\<open>created_at\<close>\<close>
  b_updated_at :: timestamptz    \<comment> \<open>\<^verbatim>\<open>updated_at\<close>\<close>

record credit_usage_row =
  u_id :: uuid                   \<comment> \<open>\<^verbatim>\<open>id UUID PRIMARY KEY\<close>\<close>
  u_user_id :: uuid              \<comment> \<open>\<^verbatim>\<open>user_id\<close>\<close>
  batch_id :: uuid
  credits_used :: int
  assignment_name :: string
  assignment_id :: "uuid option"
  u_created_at :: timestamptz    \<comment> \<open>\<^verbatim>\<open>created_at\<close>\<close>

record ledger =
  credit_batches :: "credit_batch_row list"
  credit_usage :: "credit_usage_row list"
  next_uuid :: uuid

definition empty_ledger :: ledger where
  "empty_ledger = \<lparr>credit_batches = [], credit_usage = [], next_uuid = 0\<rparr>"

datatype error =
  check_violation string      \<comment> \<open>a row fails a \<^verbatim>\<open>CHECK\<close> constraint (named)\<close>
| raise_exception string      \<comment> \<open>\<^verbatim>\<open>RAISE EXCEPTION\<close> with its message\<close>
| integer_out_of_range        \<comment> \<open>SQLSTATE 22003\<close>
| timestamp_out_of_range      \<comment> \<open>SQLSTATE 22008\<close>

definition int4 :: "int \<Rightarrow> bool" where
  "int4 x \<longleftrightarrow> - 2147483648 \<le> x \<and> x \<le> 2147483647"

definition timestamptz_range :: "timestamptz \<Rightarrow> bool" where
  "timestamptz_range t \<longleftrightarrow> - 211813488000000000 \<le> t \<and> t < 9223371331200000000"

definition days :: "int \<Rightarrow> int" where
  "days n = n * 86400000000"

section \<open>Statements on the tables\<close>

text \<open>
  The constraint \<^verbatim>\<open>credit_batches_subscription_type_check\<close> as the later migration
  leaves it: \<^verbatim>\<open>CHECK (subscription_type IN ('free', 'student', 'pro', 'student_yearly',
  'pro_yearly'))\<close>.
\<close>

definition subscription_type_check :: "string \<Rightarrow> bool" where
  "subscription_type_check t \<longleftrightarrow>
     t \<in> set [''free'', ''student'', ''pro'', ''student_yearly'', ''pro_yearly'']"

text \<open>
  \<^verbatim>\<open>INSERT INTO credit_batches (user_id, credits, subscription_type, expires_at)
  VALUES (...) RETURNING id\<close>: the other columns take their defaults
  (\<^verbatim>\<open>id\<close> generated, \<^verbatim>\<open>used_credits\<close> 0, both audit timestamps \<^verbatim>\<open>now()\<close>), and the
  row is refused when it fails the \<^verbatim>\<open>CHECK\<close> constraint.
\<close>

definition insert_credit_batch ::
  "uuid \<Rightarrow> int \<Rightarrow> string \<Rightarrow> timestamptz \<Rightarrow> timestamptz \<Rightarrow> ledger \<Rightarrow> error + (uuid \<times> ledger)" where
  "insert_credit_batch uid n t expiry now s =
     (if \<not> subscription_type_check t
      then Inl (check_violation ''credit_batches_subscription_type_check'')
      else Inr (next_uuid s,
        s\<lparr>credit_batches := credit_batches s @
             [\<lparr>b_id = next_uuid s, b_user_id = uid, credits = n, used_credits = 0,
               subscription_type = t, expires_at = expiry,
               b_created_at = now, b_updated_at = now\<rparr>],
           next_uuid := Suc (next_uuid s)\<rparr>))"

text \<open>
  \<^verbatim>\<open>INSERT INTO credit_usage (user_id, batch_id, credits_used, assignment_name,
  assignment_id) VALUES (...)\<close>.
\<close>

definition insert_credit_usage ::
  "uuid \<Rightarrow> uuid \<Rightarrow> int \<Rightarrow> string \<Rightarrow> uuid option \<Rightarrow> timestamptz \<Rightarrow> ledger \<Rightarrow> ledger" where
  "insert_credit_usage uid bid n name aid now s =
     s\<lparr>credit_usage := credit_usage s @
          [\<lparr>u_id = next_uuid s, u_user_id = uid, batch_id = bid, credits_used = n,
            assignment_name = name, assignment_id = aid, u_created_at = now\<rparr>],
       next_uuid := Suc (next_uuid s)\<rparr>"

text \<open>
  \<^verbatim>\<open>UPDATE credit_batches SET used_credits = e, updated_at = now() WHERE id = bid\<close>,
  where the expression \<open>e\<close> is evaluated on the row that is updated (the trigger
  \<^verbatim>\<open>update_credit_batches_updated_at\<close> sets \<^verbatim>\<open>updated_at\<close> to the same value).
\<close>

definition update_used_credits ::
  "uuid \<Rightarrow> (credit_batch_row \<Rightarrow> int) \<Rightarrow> timestamptz \<Rightarrow> ledger \<Rightarrow> ledger" where
  "update_used_credits bid e now s =
     s\<lparr>credit_batches :=
          map (\<lambda>row. if b_id row = bid
                      then row\<lparr>used_credits := e row, b_updated_at := now\<rparr> else row)
              (credit_batches s)\<rparr>"

section \<open>The deduction function\<close>

text \<open>
  The query of the \<^verbatim>\<open>FOR\<close> loop: \<^verbatim>\<open>SELECT * FROM credit_batches WHERE user_id =
  p_user_id AND expires_at > now() AND (credits - used_credits) > 0 ORDER BY expires_at
  ASC\<close>. SQL leaves the order of rows with equal \<^verbatim>\<open>expires_at\<close> open; the model keeps
  them in table order (the sort is stable).
\<close>

definition selected :: "uuid \<Rightarrow> timestamptz \<Rightarrow> credit_batch_row \<Rightarrow> bool" where
  "selected p_user_id now row \<longleftrightarrow>
     b_user_id row = p_user_id \<and> expires_at row > now \<and> credits row - used_credits row > 0"

definition select_batches :: "uuid \<Rightarrow> timestamptz \<Rightarrow> ledger \<Rightarrow> credit_batch_row list" where
  "select_batches p_user_id now s =
     sort_key expires_at (filter (selected p_user_id now) (credit_batches s))"

text \<open>
  The \<^verbatim>\<open>WHERE\<close> clause subtracts on every row of the owner that has not expired, and
  the query raises when one of the differences is not an \<^verbatim>\<open>INTEGER\<close>. The model
  evaluates the query to its end before the loop starts, as a sort does.
\<close>

definition available_in_range :: "uuid \<Rightarrow> timestamptz \<Rightarrow> ledger \<Rightarrow> bool" where
  "available_in_range p_user_id now s \<longleftrightarrow>
     (\<forall>row \<in> set (credit_batches s).
        b_user_id row = p_user_id \<and> expires_at row > now
          \<longrightarrow> int4 (credits row - used_credits row))"

text \<open>
  The body of the loop, over the rows the query returned. \<open>batch\<close> is the row as the
  query read it; the \<^verbatim>\<open>UPDATE\<close> works on the table, and its sum
  \<^verbatim>\<open>used_credits + remaining_to_deduct\<close> is formed on the row it updates. The three
  computations of the body are checked against the range of \<^verbatim>\<open>INTEGER\<close> where the
  body makes them.
\<close>

fun deduct_loop ::
  "uuid \<Rightarrow> string \<Rightarrow> uuid option \<Rightarrow> timestamptz \<Rightarrow> credit_batch_row list \<Rightarrow> int \<Rightarrow> ledger
    \<Rightarrow> error + (bool \<times> ledger)" where
  "deduct_loop p_user_id name aid now [] remaining_to_deduct s = Inr (False, s)"
| "deduct_loop p_user_id name aid now (batch # rest) remaining_to_deduct s =
     (let credits_available = credits batch - used_credits batch in
      if \<not> int4 credits_available then Inl integer_out_of_range
      else if credits_available \<ge> remaining_to_deduct then
        (if \<exists>row \<in> set (credit_batches s).
              b_id row = b_id batch \<and> \<not> int4 (used_credits row + remaining_to_deduct)
         then Inl integer_out_of_range
         else Inr (True,
           insert_credit_usage p_user_id (b_id batch) remaining_to_deduct name aid now
             (update_used_credits (b_id batch)
                (\<lambda>row. used_credits row + remaining_to_deduct) now s)))
      else
        (let s' = insert_credit_usage p_user_id (b_id batch) credits_available name aid now
                    (update_used_credits (b_id batch) credits now s)
         in if \<not> int4 (remaining_to_deduct - credits_available) then Inl integer_out_of_range
            else deduct_loop p_user_id name aid now rest
                   (remaining_to_deduct - credits_available) s'))"

definition deduct_credits ::
  "uuid \<Rightarrow> int \<Rightarrow> string \<Rightarrow> uuid option \<Rightarrow> timestamptz \<Rightarrow> ledger
    \<Rightarrow> error + (bool \<times> ledger)" where
  "deduct_credits p_user_id p_credits_to_deduct p_assignment_name p_assignment_id now s =
     (if \<not> available_in_range p_user_id now s then Inl integer_out_of_range
      else deduct_loop p_user_id p_assignment_name p_assignment_id now
             (select_batches p_user_id now s) p_credits_to_deduct s)"

section \<open>The allocation functions\<close>

text \<open>
  \<^verbatim>\<open>add_credits\<close> as the later migration replaces it (the first migration gave
  \<^verbatim>\<open>'student'\<close> 90 days and \<^verbatim>\<open>'pro'\<close> 365 days and knew no yearly plans). The
  \<^verbatim>\<open>CASE\<close> computes \<open>expiry_date\<close> before the \<^verbatim>\<open>INSERT\<close>; in its \<^verbatim>\<open>ELSE\<close> branch
  \<^verbatim>\<open>now() + (p_expiry_days || ' days')::interval\<close> raises when the sum is not a
  timestamp.
\<close>

definition add_credits ::
  "uuid \<Rightarrow> int \<Rightarrow> string \<Rightarrow> int \<Rightarrow> timestamptz \<Rightarrow> ledger \<Rightarrow> error + (uuid \<times> ledger)" where
  "add_credits p_user_id p_credits p_subscription_type p_expiry_days now s =
     (case
        (if p_subscription_type = ''student'' then Inr (now + days 30)
         else if p_subscription_type = ''student_yearly'' then Inr (now + days 365)
         else if p_subscription_type = ''pro'' then Inr (now + days 90)
         else if p_subscription_type = ''pro_yearly'' then Inr (now + days 365)
         else if timestamptz_range (now + days p_expiry_days)
              then Inr (now + days p_expiry_days) else Inl timestamp_out_of_range)
      of Inl e \<Rightarrow> Inl e
       | Inr expiry_date \<Rightarrow>
           insert_credit_batch p_user_id p_credits p_subscription_type expiry_date now s)"

text \<open>
  \<^verbatim>\<open>add_plan_credits\<close> calls \<^verbatim>\<open>add_credits\<close> with three arguments, so that
  \<^verbatim>\<open>p_expiry_days\<close> takes its default, 30.
\<close>

definition add_plan_credits ::
  "uuid \<Rightarrow> string \<Rightarrow> timestamptz \<Rightarrow> ledger \<Rightarrow> error + (uuid \<times> ledger)" where
  "add_plan_credits p_user_id p_plan_type now s =
     (if p_plan_type = ''student_monthly'' then add_credits p_user_id 50 ''student'' 30 now s
      else if p_plan_type = ''student_yearly'' then
        add_credits p_user_id 605 ''student_yearly'' 30 now s
      else if p_plan_type = ''pro_monthly'' then add_credits p_user_id 150 ''pro'' 30 now s
      else if p_plan_type = ''pro_yearly'' then add_credits p_user_id 605 ''pro_yearly'' 30 now s
      else Inl (raise_exception (''Invalid plan type: '' @ p_plan_type)))"

section \<open>The balance query\<close>

text \<open>
  \<^verbatim>\<open>getRemainingCredits\<close> reads \<^verbatim>\<open>{ data, error }\<close> from the query
  \<^verbatim>\<open>from('credit_batches').select('credits, used_credits').eq('user_id', userId)
  .gt('expires_at', now)\<close> and folds the rows; it returns 0 when the query reports an
  error or no data (\<open>remaining_of\<close>). The query is made in the session of the owner,
  whose rows the row-level security policy lets it read, and the store of the model
  always answers (\<open>select_credits\<close>). The function only reads: it returns the ledger
  as it received it.
\<close>

datatype 'a response = Failed | No_data | Data "'a list"

definition select_credits :: "uuid \<Rightarrow> timestamptz \<Rightarrow> ledger \<Rightarrow> (int \<times> int) response" where
  "select_credits userId now s =
     Data (map (\<lambda>row. (credits row, used_credits row))
            (filter (\<lambda>row. b_user_id row = userId \<and> expires_at row > now) (credit_batches s)))"

fun remaining_of :: "(int \<times> int) response \<Rightarrow> int" where
  "remaining_of Failed = 0"
| "remaining_of No_data = 0"
| "remaining_of (Data rows) = foldl (\<lambda>total (c, u). total + (c - u)) 0 rows"

definition getRemainingCredits :: "uuid \<Rightarrow> timestamptz \<Rightarrow> ledger \<Rightarrow> int \<times> ledger" where
  "getRemainingCredits userId now s = (remaining_of (select_credits userId now s), s)"

section \<open>Vocabulary of the properties\<close>

text \<open>
  \<open>primary_key\<close> is the \<^verbatim>\<open>PRIMARY KEY\<close> constraint of \<^verbatim>\<open>credit_batches\<close>: no two
  rows have the same \<^verbatim>\<open>id\<close>. \<open>appended s s'\<close> is the list of usage rows that a call
  taking \<open>s\<close> to \<open>s'\<close> has inserted. \<open>integer_columns\<close> says that the two counters of
  every batch are values of their column type, \<^verbatim>\<open>INTEGER\<close>.
\<close>

definition primary_key :: "ledger \<Rightarrow> bool" where
  "primary_key s \<longleftrightarrow> distinct (map b_id (credit_batches s))"

definition appended :: "ledger \<Rightarrow> ledger \<Rightarrow> credit_usage_row list" where
  "appended s s' = drop (length (credit_usage s)) (credit_usage s')"

definition integer_columns :: "ledger \<Rightarrow> bool" where
  "integer_columns s \<longleftrightarrow>
     (\<forall>row \<in> set (credit_batches s). int4 (credits row) \<and> int4 (used_credits row))"

subsection \<open>Sequences of calls\<close>

text \<open>
  A call of one of the four operations, and what it does to the ledger. A call that
  raises is rolled back by the database: it leaves the ledger as it was. Every call
  comes with the time at which it is made; \<open>run\<close> makes the calls of a list one after
  the other.
\<close>

datatype call =
    Add_credits uuid int string int
  | Add_plan_credits uuid string
  | Deduct_credits uuid int string "uuid option"
  | Get_remaining_credits uuid

fun perform :: "timestamptz \<Rightarrow> call \<Rightarrow> ledger \<Rightarrow> ledger" where
  "perform now (Add_credits u n t d) s =
     (case add_credits u n t d now s of Inl e \<Rightarrow> s | Inr (new_batch_id, s') \<Rightarrow> s')"
| "perform now (Add_plan_credits u plan) s =
     (case add_plan_credits u plan now s of Inl e \<Rightarrow> s | Inr (new_batch_id, s') \<Rightarrow> s')"
| "perform now (Deduct_credits u n name aid) s =
     (case deduct_credits u n name aid now s of Inl e \<Rightarrow> s | Inr (ok, s') \<Rightarrow> s')"
| "perform now (Get_remaining_credits u) s = snd (getRemainingCredits u now s)"

fun run :: "(timestamptz \<times> call) list \<Rightarrow> ledger \<Rightarrow> ledger" where
  "run [] s = s"
| "run ((now, c) # cs) s = run cs (perform now c s)"

subsection \<open>Invariants\<close>

text \<open>
  What holds of every ledger that a sequence of calls reaches from the empty one:
  the identifiers of the batches are distinct and were generated, the usage rows
  reference generated identifiers, and per batch identifier the usage amounts add up
  to the credits used. \<open>below_size\<close> holds of them too: no batch has more credits
  used than it has, unless it has none to use. \<open>not_negative\<close> holds as long as no
  negative amount is deducted.
\<close>

definition ledger_inv :: "ledger \<Rightarrow> bool" where
  "ledger_inv s \<longleftrightarrow>
     primary_key s
   \<and> (\<forall>row \<in> set (credit_batches s). b_id row < next_uuid s)
   \<and> (\<forall>u \<in> set (credit_usage s). batch_id u < next_uuid s)
   \<and> (\<forall>bid. (\<Sum>u\<leftarrow>filter (\<lambda>u. batch_id u = bid) (credit_usage s). credits_used u) =
             (\<Sum>row\<leftarrow>filter (\<lambda>row. b_id row = bid) (credit_batches s). used_credits row))"

definition below_size :: "ledger \<Rightarrow> bool" where
  "below_size s \<longleftrightarrow>
     (\<forall>row \<in> set (credit_batches s). used_credits row \<le> credits row \<or> used_credits row = 0)"

definition not_negative :: "ledger \<Rightarrow> bool" where
  "not_negative s \<longleftrightarrow> (\<forall>row \<in> set (credit_batches s). 0 \<le> used_credits row)"

subsection \<open>The deductions of one call\<close>

text \<open>
  On a table that satisfies the primary key, the loop of \<open>deduct_credits\<close> is
  determined by the deductions it makes, one per row it visits (\<open>deductions\<close>: the
  batch and the amount), by whether it reaches \<^verbatim>\<open>RETURN TRUE\<close> (\<open>covered\<close>), and by
  whether every number it computes on the way is an \<^verbatim>\<open>INTEGER\<close> (\<open>fits\<close>).
  \<open>usage_rows\<close> are the rows inserted for a list of deductions and \<open>charge\<close> is the
  update they make to a row of the table; \<open>new_batch\<close> is the row that \<open>add_credits\<close>
  inserts. These serve the proofs only; \<open>deduct_loop_char\<close> and \<open>add_credits_char\<close>
  relate them to the functions of the ledger.
\<close>

fun deductions :: "credit_batch_row list \<Rightarrow> int \<Rightarrow> (uuid \<times> int) list" where
  "deductions [] r = []"
| "deductions (b # rest) r =
     (if credits b - used_credits b \<ge> r then [(b_id b, r)]
      else (b_id b, credits b - used_credits b) # deductions rest (r - (credits b - used_credits b)))"

fun fits :: "credit_batch_row list \<Rightarrow> int \<Rightarrow> bool" where
  "fits [] r = True"
| "fits (b # rest) r =
     (int4 (credits b - used_credits b)
      \<and> (if credits b - used_credits b \<ge> r then int4 (used_credits b + r)
         else int4 (r - (credits b - used_credits b))
              \<and> fits rest (r - (credits b - used_credits b))))"

fun covered :: "credit_batch_row list \<Rightarrow> int \<Rightarrow> bool" where
  "covered [] r = False"
| "covered (b # rest) r =
     (credits b - used_credits b \<ge> r \<or> covered rest (r - (credits b - used_credits b)))"

fun usage_rows ::
  "uuid \<Rightarrow> string \<Rightarrow> uuid option \<Rightarrow> timestamptz \<Rightarrow> uuid \<Rightarrow> (uuid \<times> int) list \<Rightarrow> credit_usage_row list" where
  "usage_rows p name aid now k [] = []"
| "usage_rows p name aid now k ((bid, n) # ds) =
     \<lparr>u_id = k, u_user_id = p, batch_id = bid, credits_used = n,
       assignment_name = name, assignment_id = aid, u_created_at = now\<rparr>
     # usage_rows p name aid now (Suc k) ds"

definition charge :: "(uuid \<times> int) list \<Rightarrow> timestamptz \<Rightarrow> credit_batch_row \<Rightarrow> credit_batch_row" where
  "charge ds now row =
     (case map_of ds (b_id row) of None \<Rightarrow> row
      | Some n \<Rightarrow> row\<lparr>used_credits := used_credits row + n, b_updated_at := now\<rparr>)"

definition new_batch ::
  "uuid \<Rightarrow> uuid \<Rightarrow> int \<Rightarrow> string \<Rightarrow> timestamptz \<Rightarrow> timestamptz \<Rightarrow> credit_batch_row" where
  "new_batch i u n t expiry now =
     \<lparr>b_id = i, b_user_id = u, credits = n, used_credits = 0, subscription_type = t,
      expires_at = expiry, b_created_at = now, b_updated_at = now\<rparr>"

subsection \<open>Example ledgers\<close>

text \<open>
  \<open>batch_row id owner credits used_credits expires_at\<close> is a row of \<open>credit_batches\<close>.
  The owner of the examples is the account 7, and their calls are made at time 100,
  before any of the days.
  \<^item> \<open>two_batches\<close>: B2, inserted first, expires in 30 days and has 10 credits
    available; B1 expires in 5 days and has 2 available (5 credits, 3 used).
  \<^item> \<open>one_batch\<close>: a single batch of 5 credits, none used.
  \<^item> \<open>three_batches\<close>: B1 of 5 credits is used up; B3 has 2 credits and expires in 30
    days; B2 has 3 credits and expires in 20 days.
  \<^item> \<open>expired_batch\<close>: the first batch expired at time 50 with 4 of its 5 credits
    unused; the second has 6 of 10 left.
  \<^item> \<open>example_calls\<close>: 5 free credits for 30 days, the student monthly plan, and a
    deduction of 8.
\<close>

definition batch_row :: "uuid \<Rightarrow> uuid \<Rightarrow> int \<Rightarrow> int \<Rightarrow> timestamptz \<Rightarrow> credit_batch_row" where
  "batch_row i u c used e =
     \<lparr>b_id = i, b_user_id = u, credits = c, used_credits = used, subscription_type = ''free'',
      expires_at = e, b_created_at = 0, b_updated_at = 0\<rparr>"

definition two_batches :: ledger where
  "two_batches =
     \<lparr>credit_batches = [batch_row 0 7 10 0 (days 30), batch_row 1 7 5 3 (days 5)],
      credit_usage = [], next_uuid = 2\<rparr>"

definition one_batch :: ledger where
  "one_batch = \<lparr>credit_batches = [batch_row 0 7 5 0 (days 30)], credit_usage = [], next_uuid = 1\<rparr>"

definition three_batches :: ledger where
  "three_batches =
     \<lparr>credit_batches =
        [batch_row 0 7 5 5 (days 10), batch_row 1 7 2 0 (days 30), batch_row 2 7 3 0 (days 20)],
      credit_usage = [], next_uuid = 3\<rparr>"

definition expired_batch :: ledger where
  "expired_batch =
     \<lparr>credit_batches = [batch_row 0 7 5 1 50, batch_row 1 7 10 4 (days 30)],
      credit_usage = [], next_uuid = 2\<rparr>"

definition example_calls :: "(timestamptz \<times> call) list" where
  "example_calls =
     [(100, Add_credits 7 5 ''free'' 30), (150, Add_plan_credits 7 ''student_monthly''),
      (200, Deduct_credits 7 8 ''essay'' None)]"

section \<open>Facts about lists\<close>

lemma sum_for_id:
  "distinct (map fst ds) \<Longrightarrow>
   sum_list (map snd (filter (\<lambda>d. fst d = bid) ds)) =
     (case map_of ds bid of None \<Rightarrow> 0 | Some n \<Rightarrow> (n::int))"
proof (induction ds)
  case Nil
  then show ?case by simp
next
  case (Cons d ds)
  obtain i n where d: "d = (i, n)" by (cases d)
  show ?case
  proof (cases "i = bid")
    case True
    then have "bid \<notin> fst ` set ds" using Cons.prems d by auto
    then have "map_of ds bid = None" by (simp add: map_of_eq_None_iff)
    with Cons True d show ?thesis by (simp split: option.splits)
  next
    case False
    with Cons d show ?thesis by simp
  qed
qed

lemma sum_list_single:
  "distinct (map f xs) \<Longrightarrow> i \<in> f ` set xs \<Longrightarrow> (\<Sum>x\<leftarrow>xs. if f x = i then n else 0) = (n::int)"
proof (induction xs)
  case Nil
  then show ?case by simp
next
  case (Cons x xs)
  show ?case
  proof (cases "f x = i")
    case True
    then have "i \<notin> f ` set xs" using Cons.prems(1) by auto
    then have "(\<Sum>x\<leftarrow>xs. if f x = i then n else 0) = 0"
      by (induction xs) auto
    with True show ?thesis by simp
  next
    case False
    with Cons show ?thesis by auto
  qed
qed

lemma filter_single:
  "distinct (map f xs) \<Longrightarrow> x \<in> set xs \<Longrightarrow> filter (\<lambda>y. f y = f x) xs = [x]"
proof (induction xs)
  case Nil
  then show ?case by simp
next
  case (Cons a xs)
  show ?case
  proof (cases "a = x")
    case True
    have "f x \<notin> f ` set xs" using Cons.prems(1) True by simp
    then have "\<forall>y \<in> set xs. f y \<noteq> f x" by (metis imageI)
    then have "filter (\<lambda>y. f y = f x) xs = []" by (simp add: filter_empty_conv)
    with True show ?thesis by simp
  next
    case False
    then have x: "x \<in> set xs" using Cons.prems(2) by simp
    then have "f a \<noteq> f x" using Cons.prems(1) by auto
    with Cons x show ?thesis by simp
  qed
qed

lemma filter_absent:
  "i \<notin> f ` set xs \<Longrightarrow> filter (\<lambda>y. f y = i) xs = []"
  by (auto simp: filter_empty_conv)

lemma foldl_remaining:
  "foldl (\<lambda>total (c, u). total + (c - u)) a rows = a + (\<Sum>(c, u)\<leftarrow>rows. c - (u::int))"
  by (induction rows arbitrary: a) (auto simp: algebra_simps)

section \<open>The list of deductions\<close>

text \<open>
  The deductions follow the rows in their order, stop at the row that covers what
  remains, and take from every row before it all that it has available.
\<close>

lemma deductions_fst: "fst ` set (deductions rows r) \<subseteq> b_id ` set rows"
  by (induction rows arbitrary: r) auto

lemma deductions_ids:
  "map fst (deductions rows r) = map b_id (take (length (deductions rows r)) rows)"
  by (induction rows arbitrary: r) auto

lemma deductions_length: "length (deductions rows r) \<le> length rows"
  by (induction rows arbitrary: r) auto

lemma deductions_distinct:
  "distinct (map b_id rows) \<Longrightarrow> distinct (map fst (deductions rows r))"
  unfolding deductions_ids by (simp flip: take_map)

lemma deductions_lookup:
  assumes "distinct (map b_id rows)" "i < length (deductions rows r)"
  shows "map_of (deductions rows r) (b_id (rows ! i)) = Some (snd (deductions rows r ! i))"
proof -
  have len: "i < length rows" using assms(2) deductions_length[of rows r] by simp
  have "map fst (deductions rows r) ! i = map b_id (take (length (deductions rows r)) rows) ! i"
    by (simp add: deductions_ids[symmetric])
  then have "fst (deductions rows r ! i) = b_id (rows ! i)" using assms(2) len by simp
  then have "(b_id (rows ! i), snd (deductions rows r ! i)) \<in> set (deductions rows r)"
    using assms(2) by (metis nth_mem prod.collapse)
  then show ?thesis using deductions_distinct[OF assms(1)] by simp
qed

lemma deductions_exhausted:
  "\<not> covered rows r \<Longrightarrow>
   deductions rows r = map (\<lambda>b. (b_id b, credits b - used_credits b)) rows"
  by (induction rows arbitrary: r) auto

lemma deductions_butlast:
  "butlast (deductions rows r) =
     map (\<lambda>b. (b_id b, credits b - used_credits b)) (take (length (deductions rows r) - 1) rows)"
proof (induction rows arbitrary: r)
  case Nil
  then show ?case by simp
next
  case (Cons b rest)
  show ?case
  proof (cases "credits b - used_credits b \<ge> r")
    case True
    then show ?thesis by simp
  next
    case False
    show ?thesis
    proof (cases "deductions rest (r - (credits b - used_credits b))")
      case Nil
      with False show ?thesis by simp
    next
      case (Cons d ds)
      with False Cons.IH[of "r - (credits b - used_credits b)"] show ?thesis by simp
    qed
  qed
qed

lemma deductions_drain:
  assumes "i < length (deductions rows r) - 1"
  shows "snd (deductions rows r ! i) = credits (rows ! i) - used_credits (rows ! i)"
proof -
  have len: "length (deductions rows r) \<le> length rows" by (rule deductions_length)
  have "butlast (deductions rows r) ! i
      = map (\<lambda>b. (b_id b, credits b - used_credits b)) (take (length (deductions rows r) - 1) rows) ! i"
    using deductions_butlast[of rows r] by simp
  then show ?thesis using assms len by (simp add: nth_butlast)
qed

lemma deductions_exact:
  "\<forall>b \<in> set rows. credits b - used_credits b > 0 \<Longrightarrow> rows \<noteq> [] \<Longrightarrow>
   r = (\<Sum>b\<leftarrow>rows. credits b - used_credits b) \<Longrightarrow>
   deductions rows r = map (\<lambda>b. (b_id b, credits b - used_credits b)) rows"
proof (induction rows arbitrary: r)
  case Nil
  then show ?case by simp
next
  case (Cons b rest)
  show ?case
  proof (cases rest)
    case Nil
    with Cons.prems show ?thesis by simp
  next
    case (Cons c rest')
    have pos: "0 < (\<Sum>b\<leftarrow>rest. credits b - used_credits b)"
    proof -
      have "0 \<le> (\<Sum>b\<leftarrow>rest'. credits b - used_credits b)"
        using Cons.prems(1) Cons by (intro sum_list_nonneg) auto
      moreover have "0 < credits c - used_credits c" using Cons.prems(1) Cons by simp
      ultimately show ?thesis using Cons by simp
    qed
    have ne: "rest \<noteq> []" using Cons by simp
    from Cons.IH[OF _ ne refl] Cons.prems(1)
    have "deductions rest (\<Sum>b\<leftarrow>rest. credits b - used_credits b)
        = map (\<lambda>b. (b_id b, credits b - used_credits b)) rest" by simp
    with pos Cons.prems(3) show ?thesis by simp
  qed
qed

lemma deductions_le:
  "(i, m) \<in> set (deductions rows r) \<Longrightarrow>
   \<exists>b \<in> set rows. b_id b = i \<and> m \<le> credits b - used_credits b"
  by (induction rows arbitrary: r) (auto split: if_splits)

lemma deductions_nonneg:
  "0 \<le> r \<Longrightarrow> \<forall>b \<in> set rows. 0 < credits b - used_credits b \<Longrightarrow>
   (i, m) \<in> set (deductions rows r) \<Longrightarrow> 0 \<le> m"
proof (induction rows arbitrary: r)
  case Nil
  then show ?case by simp
next
  case (Cons b rest)
  show ?case
  proof (cases "credits b - used_credits b \<ge> r")
    case True
    with Cons.prems show ?thesis by simp
  next
    case False
    then have "0 \<le> r - (credits b - used_credits b)" by simp
    with Cons.IH[of "r - (credits b - used_credits b)"] Cons.prems False
    show ?thesis by auto
  qed
qed



lemma fits_exhausted:
  "0 < r \<Longrightarrow> int4 r \<Longrightarrow>
   \<forall>b \<in> set rows. 0 < credits b - used_credits b \<and> int4 (credits b - used_credits b) \<Longrightarrow>
   \<not> covered rows r \<Longrightarrow> fits rows r"
proof (induction rows arbitrary: r)
  case Nil
  then show ?case by simp
next
  case (Cons b rest)
  let ?a = "credits b - used_credits b"
  have nc: "\<not> ?a \<ge> r" "\<not> covered rest (r - ?a)" using Cons.prems(4) by simp_all
  have a: "0 < ?a" "int4 ?a" using Cons.prems(3) by simp_all
  have r': "0 < r - ?a" "int4 (r - ?a)" using nc(1) a(1) Cons.prems(1,2) by (simp_all add: int4_def)
  have "fits rest (r - ?a)" using Cons.IH[OF r' _ nc(2)] Cons.prems(3) by simp
  then show ?case using nc(1) a(2) r'(2) by simp
qed

lemma fits_positive:
  "0 < r \<Longrightarrow> int4 r \<Longrightarrow>
   \<forall>b \<in> set rows. 0 < credits b - used_credits b \<and> int4 (credits b - used_credits b)
      \<and> int4 (credits b) \<and> int4 (used_credits b) \<Longrightarrow>
   fits rows r"
proof (induction rows arbitrary: r)
  case Nil
  then show ?case by simp
next
  case (Cons b rest)
  let ?a = "credits b - used_credits b"
  have a: "0 < ?a" "int4 ?a" "int4 (credits b)" "int4 (used_credits b)"
    using Cons.prems(3) by simp_all
  show ?case
  proof (cases "?a \<ge> r")
    case True
    then have "int4 (used_credits b + r)" using a(3,4) Cons.prems(1) by (simp add: int4_def)
    then show ?thesis using True a(2) by simp
  next
    case False
    then have r': "0 < r - ?a" "int4 (r - ?a)" using a(1) Cons.prems(1,2) by (simp_all add: int4_def)
    have "fits rest (r - ?a)" using Cons.IH[OF r'] Cons.prems(3) by simp
    then show ?thesis using False a(2) r'(2) by simp
  qed
qed

lemma covered_iff:
  "\<forall>b \<in> set rows. credits b - used_credits b > 0 \<Longrightarrow> 0 < r \<Longrightarrow>
   covered rows r \<longleftrightarrow> r \<le> (\<Sum>b\<leftarrow>rows. credits b - used_credits b)"
proof (induction rows arbitrary: r)
  case Nil
  then show ?case by simp
next
  case (Cons b rest)
  have nonneg: "0 \<le> (\<Sum>b\<leftarrow>rest. credits b - used_credits b)"
    using Cons.prems(1) by (intro sum_list_nonneg) auto
  show ?case
  proof (cases "credits b - used_credits b \<ge> r")
    case True
    then show ?thesis using nonneg by simp
  next
    case False
    then have "0 < r - (credits b - used_credits b)" by simp
    with Cons.IH[of "r - (credits b - used_credits b)"] Cons.prems(1) False
    show ?thesis by auto
  qed
qed

lemma deductions_sum:
  "\<forall>b \<in> set rows. credits b - used_credits b > 0 \<Longrightarrow> 0 < r \<Longrightarrow>
   sum_list (map snd (deductions rows r)) =
     (if covered rows r then r else (\<Sum>b\<leftarrow>rows. credits b - used_credits b))"
proof (induction rows arbitrary: r)
  case Nil
  then show ?case by simp
next
  case (Cons b rest)
  show ?case
  proof (cases "credits b - used_credits b \<ge> r")
    case True
    then show ?thesis by simp
  next
    case False
    then have "0 < r - (credits b - used_credits b)" by simp
    with Cons.IH[of "r - (credits b - used_credits b)"] Cons.prems(1) False
    show ?thesis by auto
  qed
qed

lemma charged_total:
  assumes "distinct (map b_id tbl)"
  shows "distinct (map fst ds) \<Longrightarrow> fst ` set ds \<subseteq> b_id ` set tbl \<Longrightarrow>
     (\<Sum>row\<leftarrow>tbl. case map_of ds (b_id row) of None \<Rightarrow> 0 | Some n \<Rightarrow> n)
       = sum_list (map snd (ds :: (uuid \<times> int) list))"
proof (induction ds)
  case Nil
  then show ?case by simp
next
  case (Cons d ds)
  obtain i n where d: "d = (i, n)" by (cases d)
  have i: "i \<in> b_id ` set tbl" using Cons.prems(2) d by simp
  have "i \<notin> fst ` set ds" using Cons.prems(1) d by simp
  then have none: "map_of ds i = None" by (simp add: map_of_eq_None_iff)
  have "(\<Sum>row\<leftarrow>tbl. case map_of (d # ds) (b_id row) of None \<Rightarrow> 0 | Some n \<Rightarrow> n)
      = (\<Sum>row\<leftarrow>tbl. (if b_id row = i then n else 0)
            + (case map_of ds (b_id row) of None \<Rightarrow> 0 | Some n \<Rightarrow> n))"
    using none by (intro arg_cong[where f=sum_list] map_cong refl) (simp add: d)
  also have "\<dots> = (\<Sum>row\<leftarrow>tbl. if b_id row = i then n else 0)
            + (\<Sum>row\<leftarrow>tbl. case map_of ds (b_id row) of None \<Rightarrow> 0 | Some n \<Rightarrow> n)"
    by (rule sum_list_addf)
  also have "\<dots> = n + sum_list (map snd ds)"
    using sum_list_single[OF assms i] Cons.IH Cons.prems d by simp
  finally show ?case by (simp add: d)
qed

lemma usage_rows_pairs:
  "map (\<lambda>u. (batch_id u, credits_used u)) (usage_rows p name aid now k ds) = ds"
  by (induction ds arbitrary: k) auto

lemma usage_rows_for:
  "(\<Sum>u\<leftarrow>filter (\<lambda>u. batch_id u = bid) (usage_rows p name aid now k ds). credits_used u) =
     sum_list (map snd (filter (\<lambda>d. fst d = bid) ds))"
  by (induction ds arbitrary: k) auto

lemma usage_rows_total:
  assumes "distinct (map fst ds)"
  shows "(\<Sum>u\<leftarrow>filter (\<lambda>u. batch_id u = bid) (usage_rows p name aid now k ds). credits_used u) =
     (case map_of ds bid of None \<Rightarrow> 0 | Some n \<Rightarrow> n)"
  unfolding usage_rows_for using assms by (rule sum_for_id)

section \<open>Rows and the query\<close>

lemma charge_id [simp]: "b_id (charge ds now row) = b_id row"
  by (simp add: charge_def split: option.splits)

lemma charge_fixed:
  "credits (charge ds now row) = credits row \<and> b_user_id (charge ds now row) = b_user_id row
   \<and> subscription_type (charge ds now row) = subscription_type row
   \<and> expires_at (charge ds now row) = expires_at row
   \<and> b_created_at (charge ds now row) = b_created_at row"
  by (simp add: charge_def split: option.splits)

lemma charge_untouched: "b_id row \<notin> fst ` set ds \<Longrightarrow> charge ds now row = row"
proof -
  assume "b_id row \<notin> fst ` set ds"
  then have "map_of ds (b_id row) = None" by (simp add: map_of_eq_None_iff)
  then show ?thesis by (simp add: charge_def)
qed

lemma charge_used:
  "used_credits (charge ds now row) =
     used_credits row + (case map_of ds (b_id row) of None \<Rightarrow> 0 | Some n \<Rightarrow> n)"
  by (simp add: charge_def split: option.splits)

lemma primary_key_row:
  "primary_key s \<Longrightarrow> a \<in> set (credit_batches s) \<Longrightarrow> row \<in> set (credit_batches s) \<Longrightarrow>
   b_id row = b_id a \<Longrightarrow> row = a"
  unfolding primary_key_def by (meson distinct_map inj_onD)

lemma select_batches_set:
  "set (select_batches p now s) = {row \<in> set (credit_batches s). selected p now row}"
  by (auto simp: select_batches_def)

lemma select_batches_subset: "set (select_batches p now s) \<subseteq> set (credit_batches s)"
  by (auto simp: select_batches_set)

lemma select_batches_sorted: "sorted (map expires_at (select_batches p now s))"
  by (simp add: select_batches_def)

lemma select_batches_distinct:
  "primary_key s \<Longrightarrow> distinct (map b_id (select_batches p now s))"
proof -
  assume "primary_key s"
  then have "distinct (map b_id (filter (selected p now) (credit_batches s)))"
    by (simp add: primary_key_def distinct_map_filter)
  then have "card (set (map b_id (filter (selected p now) (credit_batches s))))
      = length (map b_id (filter (selected p now) (credit_batches s)))"
    by (rule distinct_card)
  then have "card (set (map b_id (select_batches p now s)))
      = length (map b_id (select_batches p now s))"
    by (simp add: select_batches_def)
  then show ?thesis by (rule card_distinct)
qed

lemma select_batches_positive:
  "\<forall>b \<in> set (select_batches p now s). credits b - used_credits b > 0"
  by (simp add: select_batches_set selected_def)

lemma unselected_id:
  assumes "primary_key s" "row \<in> set (credit_batches s)" "\<not> selected p now row"
  shows "b_id row \<notin> b_id ` set (select_batches p now s)"
proof
  assume "b_id row \<in> b_id ` set (select_batches p now s)"
  then obtain a where a: "a \<in> set (select_batches p now s)" "b_id row = b_id a" by auto
  then have "a \<in> set (credit_batches s)" using select_batches_subset by auto
  then have "row = a" using assms(1,2) a(2) primary_key_row by blast
  then show False using a(1) assms(3) by (simp add: select_batches_set)
qed

section \<open>The loop\<close>

text \<open>
  The rows that the query returns are rows of the table with distinct identifiers, so
  that each of them is still as the query read it when the loop reaches it, and the
  \<^verbatim>\<open>UPDATE\<close> by identifier changes that row alone.
\<close>

lemma deduct_loop_char:
  "distinct (map b_id (credit_batches s)) \<Longrightarrow> distinct (map b_id rows) \<Longrightarrow>
   set rows \<subseteq> set (credit_batches s) \<Longrightarrow>
   deduct_loop p name aid now rows r s =
     (if fits rows r then
        Inr (covered rows r,
          s\<lparr>credit_batches := map (charge (deductions rows r) now) (credit_batches s),
            credit_usage := credit_usage s @
              usage_rows p name aid now (next_uuid s) (deductions rows r),
            next_uuid := next_uuid s + length (deductions rows r)\<rparr>)
      else Inl integer_out_of_range)"
proof (induction rows arbitrary: r s)
  case Nil
  have "map (charge [] now) (credit_batches s) = credit_batches s"
    by (rule map_idI) (simp add: charge_def)
  then show ?case by simp
next
  case (Cons b rest)
  let ?a = "credits b - used_credits b"
  have bin: "b \<in> set (credit_batches s)" using Cons.prems by simp
  have uniq: "\<And>row. row \<in> set (credit_batches s) \<Longrightarrow> b_id row = b_id b \<Longrightarrow> row = b"
    using Cons.prems(1) bin by (meson distinct_map inj_onD)
  show ?case
  proof (cases "int4 ?a")
    case False
    then show ?thesis by (simp add: Let_def)
  next
    case avail: True
    show ?thesis
    proof (cases "?a \<ge> r")
      case True
      have chk: "(\<exists>row \<in> set (credit_batches s).
                   b_id row = b_id b \<and> \<not> int4 (used_credits row + r))
                 \<longleftrightarrow> \<not> int4 (used_credits b + r)"
        using uniq bin by blast
      have "map (\<lambda>row. if b_id row = b_id b
                       then row\<lparr>used_credits := used_credits row + r, b_updated_at := now\<rparr>
                       else row) (credit_batches s)
          = map (charge [(b_id b, r)] now) (credit_batches s)"
        by (simp add: charge_def)
      with True avail show ?thesis
        by (simp add: Let_def chk insert_credit_usage_def update_used_credits_def)
    next
      case False
      let ?s1 = "insert_credit_usage p (b_id b) ?a name aid now
                   (update_used_credits (b_id b) credits now s)"
      show ?thesis
      proof (cases "int4 (r - ?a)")
        case False
        then show ?thesis using \<open>\<not> r \<le> ?a\<close> avail by (simp add: Let_def)
      next
        case rem: True
        have "\<And>row. row \<in> set (credit_batches s) \<Longrightarrow>
            (if b_id row = b_id b then row\<lparr>used_credits := credits row, b_updated_at := now\<rparr>
             else row) = charge [(b_id b, ?a)] now row"
        proof -
          fix row assume "row \<in> set (credit_batches s)"
          then have "b_id row = b_id b \<Longrightarrow> row = b" by (rule uniq)
          then show "(if b_id row = b_id b
                      then row\<lparr>used_credits := credits row, b_updated_at := now\<rparr> else row)
              = charge [(b_id b, ?a)] now row"
            by (auto simp: charge_def)
        qed
        then have tbl1: "credit_batches ?s1 = map (charge [(b_id b, ?a)] now) (credit_batches s)"
          by (simp add: insert_credit_usage_def update_used_credits_def)
        have ids1: "map b_id (credit_batches ?s1) = map b_id (credit_batches s)"
          by (simp add: insert_credit_usage_def update_used_credits_def o_def)
        have d1: "distinct (map b_id (credit_batches ?s1))" using Cons.prems(1) ids1 by simp
        have d2: "distinct (map b_id rest)" using Cons.prems(2) by simp
        have "b_id b \<notin> b_id ` set rest" using Cons.prems(2) by simp
        then have notb: "\<And>row. row \<in> set rest \<Longrightarrow> b_id row \<noteq> b_id b" by (metis imageI)
        have sub: "set rest \<subseteq> set (credit_batches ?s1)"
        proof
          fix row assume r: "row \<in> set rest"
          then have "row \<in> set (credit_batches s)" using Cons.prems(3) by auto
          moreover have "charge [(b_id b, ?a)] now row = row"
            using notb[OF r] by (simp add: charge_def)
          ultimately show "row \<in> set (credit_batches ?s1)" unfolding tbl1 by force
        qed
        have nin: "b_id b \<notin> fst ` set (deductions rest (r - ?a))"
          using deductions_fst[of rest "r - ?a"] notb by auto
        have comp: "map (charge (deductions rest (r - ?a)) now)
                      (map (charge [(b_id b, ?a)] now) (credit_batches s))
             = map (charge ((b_id b, ?a) # deductions rest (r - ?a)) now) (credit_batches s)"
        proof -
          have none: "map_of (deductions rest (r - ?a)) (b_id b) = None"
            using nin by (simp add: map_of_eq_None_iff)
          have "\<And>row. charge (deductions rest (r - ?a)) now (charge [(b_id b, ?a)] now row)
              = charge ((b_id b, ?a) # deductions rest (r - ?a)) now row"
            using none by (simp add: charge_def split: option.split)
          then show ?thesis by simp
        qed
        have "deduct_loop p name aid now (b # rest) r s
            = deduct_loop p name aid now rest (r - ?a) ?s1"
          using \<open>\<not> r \<le> ?a\<close> avail rem by (simp add: Let_def)
        also have "\<dots> =
          (if fits rest (r - ?a) then
             Inr (covered rest (r - ?a),
               ?s1\<lparr>credit_batches :=
                     map (charge (deductions rest (r - ?a)) now) (credit_batches ?s1),
                   credit_usage := credit_usage ?s1 @
                     usage_rows p name aid now (next_uuid ?s1) (deductions rest (r - ?a)),
                   next_uuid := next_uuid ?s1 + length (deductions rest (r - ?a))\<rparr>)
           else Inl integer_out_of_range)"
          by (rule Cons.IH[OF d1 d2 sub])
        finally show ?thesis using \<open>\<not> r \<le> ?a\<close> comp tbl1 avail rem
          by (simp add: insert_credit_usage_def update_used_credits_def)
      qed
    qed
  qed
qed

lemma deduct_credits_char:
  assumes "primary_key s"
  shows "deduct_credits p n name aid now s =
     (if available_in_range p now s \<and> fits (select_batches p now s) n then
        Inr (covered (select_batches p now s) n,
          s\<lparr>credit_batches :=
              map (charge (deductions (select_batches p now s) n) now) (credit_batches s),
            credit_usage := credit_usage s @
              usage_rows p name aid now (next_uuid s) (deductions (select_batches p now s) n),
            next_uuid := next_uuid s + length (deductions (select_batches p now s) n)\<rparr>)
      else Inl integer_out_of_range)"
proof -
  have "deduct_loop p name aid now (select_batches p now s) n s =
     (if fits (select_batches p now s) n then
        Inr (covered (select_batches p now s) n,
          s\<lparr>credit_batches :=
              map (charge (deductions (select_batches p now s) n) now) (credit_batches s),
            credit_usage := credit_usage s @
              usage_rows p name aid now (next_uuid s) (deductions (select_batches p now s) n),
            next_uuid := next_uuid s + length (deductions (select_batches p now s) n)\<rparr>)
      else Inl integer_out_of_range)"
    by (rule deduct_loop_char)
       (use assms in \<open>auto simp: primary_key_def select_batches_distinct select_batches_set\<close>)
  then show ?thesis by (simp add: deduct_credits_def)
qed

lemma deduct_credits_parts:
  assumes "primary_key s" and "deduct_credits p n name aid now s = Inr (ok, s')"
  shows "ok = covered (select_batches p now s) n"
    and "credit_batches s' =
           map (charge (deductions (select_batches p now s) n) now) (credit_batches s)"
    and "credit_usage s' = credit_usage s @
           usage_rows p name aid now (next_uuid s) (deductions (select_batches p now s) n)"
    and "appended s s' =
           usage_rows p name aid now (next_uuid s) (deductions (select_batches p now s) n)"
    and "next_uuid s' = next_uuid s + length (deductions (select_batches p now s) n)"
  using assms(2) unfolding deduct_credits_char[OF assms(1)] appended_def
  by (auto split: if_splits)

lemma select_batches_in_range:
  "available_in_range p now s \<Longrightarrow>
   \<forall>b \<in> set (select_batches p now s).
     0 < credits b - used_credits b \<and> int4 (credits b - used_credits b)"
  by (auto simp: select_batches_set selected_def available_in_range_def)

lemma select_batches_integer:
  "available_in_range p now s \<Longrightarrow> integer_columns s \<Longrightarrow>
   \<forall>b \<in> set (select_batches p now s).
     0 < credits b - used_credits b \<and> int4 (credits b - used_credits b)
     \<and> int4 (credits b) \<and> int4 (used_credits b)"
  by (auto simp: select_batches_set selected_def available_in_range_def integer_columns_def)

lemma deduct_credits_error:
  "primary_key s \<Longrightarrow> deduct_credits p n name aid now s = Inl e \<Longrightarrow> e = integer_out_of_range"
  unfolding deduct_credits_char by (simp split: if_splits)

lemma deduct_credits_returns:
  assumes "primary_key s" and "available_in_range p now s" and "fits (select_batches p now s) n"
  shows "\<exists>ok s'. deduct_credits p n name aid now s = Inr (ok, s')"
  unfolding deduct_credits_char[OF assms(1)] using assms(2,3) by simp

lemma drained_row:
  assumes pk: "primary_key s"
    and a: "a \<in> set (select_batches p now s)"
    and look: "map_of ds (b_id a) = Some (credits a - used_credits a)"
    and row': "row' \<in> set (map (charge ds now) (credit_batches s))" "b_id row' = b_id a"
  shows "used_credits row' = credits row'"
proof -
  obtain row where row: "row \<in> set (credit_batches s)" "row' = charge ds now row"
    using row'(1) by auto
  have "a \<in> set (credit_batches s)" using a select_batches_subset by auto
  moreover have "b_id row = b_id a" using row(2) row'(2) by simp
  ultimately have "row = a" using pk row(1) primary_key_row by blast
  then show ?thesis using row(2) look by (simp add: charge_def)
qed

lemma charge_selected_all:
  assumes pk: "primary_key s"
    and ds: "ds = map (\<lambda>b. (b_id b, credits b - used_credits b)) (select_batches p now s)"
  shows "map (charge ds now) (credit_batches s) =
         map (\<lambda>row. if selected p now row
                     then row\<lparr>used_credits := credits row, b_updated_at := now\<rparr> else row)
             (credit_batches s)"
proof (rule map_cong[OF refl])
  fix row assume row: "row \<in> set (credit_batches s)"
  have dA: "distinct (map b_id (select_batches p now s))" using pk by (rule select_batches_distinct)
  have dds: "distinct (map fst ds)" using dA by (simp add: ds o_def)
  show "charge ds now row =
        (if selected p now row then row\<lparr>used_credits := credits row, b_updated_at := now\<rparr> else row)"
  proof (cases "selected p now row")
    case True
    then have "row \<in> set (select_batches p now s)" using row by (simp add: select_batches_set)
    then have "(b_id row, credits row - used_credits row) \<in> set ds" by (auto simp: ds)
    then have "map_of ds (b_id row) = Some (credits row - used_credits row)" using dds by simp
    then show ?thesis using True by (simp add: charge_def)
  next
    case False
    have "b_id row \<notin> b_id ` set (select_batches p now s)"
      using pk row False by (rule unselected_id)
    moreover have "fst ` set ds = b_id ` set (select_batches p now s)" by (force simp: ds)
    ultimately have "charge ds now row = row" by (intro charge_untouched) simp
    then show ?thesis using False by simp
  qed
qed



lemma charged_row:
  assumes pk: "primary_key s" and row: "row \<in> set (credit_batches s)"
    and m: "map_of (deductions (select_batches p now s) n) (b_id row) = Some m"
  shows "m \<le> credits row - used_credits row" and "0 \<le> n \<Longrightarrow> 0 \<le> m"
proof -
  let ?A = "select_batches p now s"
  have mem: "(b_id row, m) \<in> set (deductions ?A n)" using m by (rule map_of_SomeD)
  then obtain b where b: "b \<in> set ?A" "b_id b = b_id row" "m \<le> credits b - used_credits b"
    using deductions_le by blast
  have "b \<in> set (credit_batches s)" using b(1) select_batches_subset by auto
  then have "b = row" using pk row b(2) primary_key_row by metis
  then show "m \<le> credits row - used_credits row" using b(3) by simp
  show "0 \<le> n \<Longrightarrow> 0 \<le> m"
    using deductions_nonneg[OF _ select_batches_positive mem] by simp
qed

lemma deduct_credits_total:
  assumes "primary_key s" and "deduct_credits p n name aid now s = Inr (ok, s')"
  shows "(\<Sum>row\<leftarrow>credit_batches s'. used_credits row) =
         (\<Sum>row\<leftarrow>credit_batches s. used_credits row) + sum_list (map credits_used (appended s s'))"
proof -
  let ?A = "select_batches p now s"
  let ?ds = "deductions ?A n"
  note parts = deduct_credits_parts[OF assms]
  have d1: "distinct (map b_id (credit_batches s))" using assms(1) by (simp add: primary_key_def)
  have d2: "distinct (map fst ?ds)"
    using select_batches_distinct[OF assms(1)] by (rule deductions_distinct)
  have sub: "fst ` set ?ds \<subseteq> b_id ` set (credit_batches s)"
    using deductions_fst[of ?A n] select_batches_subset[of p now s] by blast
  have "map credits_used (appended s s') = map snd (map (\<lambda>u. (batch_id u, credits_used u)) (appended s s'))"
    by (simp add: o_def)
  then have us: "map credits_used (appended s s') = map snd ?ds"
    unfolding parts(4) usage_rows_pairs .
  have "(\<Sum>row\<leftarrow>credit_batches s'. used_credits row)
      = (\<Sum>row\<leftarrow>credit_batches s. used_credits row
            + (case map_of ?ds (b_id row) of None \<Rightarrow> 0 | Some n \<Rightarrow> n))"
    unfolding parts(2) by (simp add: o_def charge_used)
  also have "\<dots> = (\<Sum>row\<leftarrow>credit_batches s. used_credits row) + sum_list (map snd ?ds)"
    using charged_total[OF d1 d2 sub] sum_list_addf[of used_credits
        "\<lambda>row. case map_of ?ds (b_id row) of None \<Rightarrow> 0 | Some n \<Rightarrow> n" "credit_batches s"]
    by simp
  finally show ?thesis using us by simp
qed

lemma deduct_credits_delta:
  assumes "primary_key s" and "deduct_credits p n name aid now s = Inr (ok, s')"
    and "i < length (credit_batches s)"
  shows "used_credits (credit_batches s' ! i) =
           used_credits (credit_batches s ! i)
           + (\<Sum>u\<leftarrow>filter (\<lambda>u. batch_id u = b_id (credit_batches s ! i)) (appended s s').
                credits_used u)"
proof -
  note parts = deduct_credits_parts[OF assms(1,2)]
  have dds: "distinct (map fst (deductions (select_batches p now s) n))"
    using select_batches_distinct[OF assms(1)] by (rule deductions_distinct)
  show ?thesis
    unfolding parts(4) usage_rows_total[OF dds] using parts(2) assms(3)
    by (simp add: charge_used)
qed

section \<open>Allocation and balance\<close>

lemma add_credits_char:
  "add_credits u n t d now s =
     (if t \<in> {''student'', ''student_yearly'', ''pro'', ''pro_yearly''} then
        Inr (next_uuid s,
             s\<lparr>credit_batches := credit_batches s @
                  [new_batch (next_uuid s) u n t
                     (now + days (if t = ''student'' then 30 else if t = ''pro'' then 90 else 365))
                     now],
               next_uuid := Suc (next_uuid s)\<rparr>)
      else if \<not> timestamptz_range (now + days d) then Inl timestamp_out_of_range
      else if t = ''free'' then
        Inr (next_uuid s,
             s\<lparr>credit_batches := credit_batches s @
                  [new_batch (next_uuid s) u n t (now + days d) now],
               next_uuid := Suc (next_uuid s)\<rparr>)
      else Inl (check_violation ''credit_batches_subscription_type_check''))"
  by (auto simp: add_credits_def insert_credit_batch_def subscription_type_check_def new_batch_def)

lemma add_credits_Inr:
  assumes "add_credits u n t d now s = Inr (new_batch_id, s')"
  shows "new_batch_id = next_uuid s"
    and "s' = s\<lparr>credit_batches := credit_batches s @
                 [new_batch (next_uuid s) u n t
                    (now + days (if t = ''free'' then d else if t = ''student'' then 30
                                 else if t = ''pro'' then 90 else 365)) now],
               next_uuid := Suc (next_uuid s)\<rparr>"
    and "t \<in> {''free'', ''student'', ''student_yearly'', ''pro'', ''pro_yearly''}"
    and "t = ''free'' \<longrightarrow> timestamptz_range (now + days d)"
  using assms unfolding add_credits_char by (auto split: if_splits)

lemma add_credits_rows:
  assumes "add_credits u n t d now s = Inr (new_batch_id, s')"
  shows "\<exists>row. credit_batches s' = credit_batches s @ [row]"
  using add_credits_Inr(2)[OF assms] by simp

lemma perform_cases:
  "perform now c s = s
   \<or> (\<exists>u n t d i. add_credits u n t d now s = Inr (i, perform now c s))
   \<or> (\<exists>u n name aid ok. c = Deduct_credits u n name aid
         \<and> deduct_credits u n name aid now s = Inr (ok, perform now c s))"
proof (cases c)
  case (Add_credits u n t d)
  then show ?thesis by (cases "add_credits u n t d now s") auto
next
  case (Add_plan_credits u plan)
  then show ?thesis
    by (cases "add_plan_credits u plan now s")
       (auto simp: add_plan_credits_def split: if_splits)
next
  case (Deduct_credits u n name aid)
  then show ?thesis by (cases "deduct_credits u n name aid now s") auto
next
  case (Get_remaining_credits u)
  then show ?thesis by (simp add: getRemainingCredits_def)
qed

lemma getRemainingCredits_char:
  "fst (getRemainingCredits u now s) =
     (\<Sum>row\<leftarrow>filter (\<lambda>row. b_user_id row = u \<and> expires_at row > now) (credit_batches s).
        credits row - used_credits row)"
  by (simp add: getRemainingCredits_def select_credits_def foldl_remaining o_def)

section \<open>The invariants are kept\<close>

lemma ledger_inv_empty: "ledger_inv empty_ledger"
  by (simp add: ledger_inv_def primary_key_def empty_ledger_def)

lemma ledger_inv_row:
  assumes "ledger_inv s" and "row \<in> set (credit_batches s)"
  shows "(\<Sum>u\<leftarrow>filter (\<lambda>u. batch_id u = b_id row) (credit_usage s). credits_used u) = used_credits row"
proof -
  have "distinct (map b_id (credit_batches s))" using assms(1) by (simp add: ledger_inv_def primary_key_def)
  then have "filter (\<lambda>y. b_id y = b_id row) (credit_batches s) = [row]"
    using assms(2) by (rule filter_single)
  then show ?thesis using assms(1) by (simp add: ledger_inv_def)
qed

lemma ledger_inv_add_credits:
  assumes "ledger_inv s" and "add_credits u n t d now s = Inr (i, s')"
  shows "ledger_inv s'"
proof -
  let ?e = "now + days (if t = ''free'' then d else if t = ''student'' then 30
                                  else if t = ''pro'' then 90 else 365)"
  have s': "s' = s\<lparr>credit_batches := credit_batches s @ [new_batch (next_uuid s) u n t ?e now],
               next_uuid := Suc (next_uuid s)\<rparr>"
    using assms(2) by (rule add_credits_Inr(2))
  have fresh: "next_uuid s \<notin> b_id ` set (credit_batches s)"
    using assms(1) by (auto simp: ledger_inv_def)
  have "primary_key s'" using assms(1) fresh by (simp add: s' ledger_inv_def primary_key_def new_batch_def)
  moreover have "\<forall>row \<in> set (credit_batches s'). b_id row < next_uuid s'"
    using assms(1) by (auto simp: s' ledger_inv_def new_batch_def less_Suc_eq)
  moreover have "\<forall>u \<in> set (credit_usage s'). batch_id u < next_uuid s'"
    using assms(1) by (auto simp: s' ledger_inv_def less_Suc_eq)
  moreover have "\<forall>bid. (\<Sum>u\<leftarrow>filter (\<lambda>u. batch_id u = bid) (credit_usage s'). credits_used u) =
             (\<Sum>row\<leftarrow>filter (\<lambda>row. b_id row = bid) (credit_batches s'). used_credits row)"
    using assms(1) by (simp add: s' ledger_inv_def new_batch_def)
  ultimately show ?thesis by (simp add: ledger_inv_def)
qed

lemma ledger_inv_deduct_credits:
  assumes "ledger_inv s" and "deduct_credits p n name aid now s = Inr (ok, s')"
  shows "ledger_inv s'"
proof -
  let ?A = "select_batches p now s"
  let ?ds = "deductions ?A n"
  have pk: "primary_key s" using assms(1) by (simp add: ledger_inv_def)
  note parts = deduct_credits_parts[OF pk assms(2)]
  have ids: "map b_id (credit_batches s') = map b_id (credit_batches s)"
    unfolding parts(2) by simp
  have dds: "distinct (map fst ?ds)"
    using select_batches_distinct[OF pk] by (rule deductions_distinct)
  have dtbl: "distinct (map b_id (credit_batches s))" using pk by (simp add: primary_key_def)
  have c1: "primary_key s'" using pk ids by (simp add: primary_key_def)
  have "b_id ` set (credit_batches s') = b_id ` set (credit_batches s)"
    using ids by (metis set_map)
  moreover have "\<forall>i \<in> b_id ` set (credit_batches s). i < next_uuid s"
    using assms(1) by (simp add: ledger_inv_def)
  ultimately have "\<forall>i \<in> b_id ` set (credit_batches s'). i < next_uuid s'"
    using parts(5) by (auto simp: trans_less_add1)
  then have c2: "\<forall>row \<in> set (credit_batches s'). b_id row < next_uuid s'"
    by simp
  have c3: "\<forall>bid. (\<Sum>u\<leftarrow>filter (\<lambda>u. batch_id u = bid) (credit_usage s'). credits_used u) =
             (\<Sum>row\<leftarrow>filter (\<lambda>row. b_id row = bid) (credit_batches s'). used_credits row)"
  proof
    fix bid
    let ?g = "case map_of ?ds bid of None \<Rightarrow> 0 | Some n \<Rightarrow> n"
    have old: "(\<Sum>u\<leftarrow>filter (\<lambda>u. batch_id u = bid) (credit_usage s). credits_used u) =
             (\<Sum>row\<leftarrow>filter (\<lambda>row. b_id row = bid) (credit_batches s). used_credits row)"
      using assms(1) by (simp add: ledger_inv_def)
    have lhs: "(\<Sum>u\<leftarrow>filter (\<lambda>u. batch_id u = bid) (credit_usage s'). credits_used u) =
        (\<Sum>u\<leftarrow>filter (\<lambda>u. batch_id u = bid) (credit_usage s). credits_used u) + ?g"
      unfolding parts(3) using usage_rows_total[OF dds] by simp
    have flt: "filter (\<lambda>row. b_id row = bid) (map (charge ?ds now) (credit_batches s))
        = map (charge ?ds now) (filter (\<lambda>row. b_id row = bid) (credit_batches s))"
      by (simp add: filter_map o_def)
    have rhs: "(\<Sum>row\<leftarrow>filter (\<lambda>row. b_id row = bid) (credit_batches s'). used_credits row) =
        (\<Sum>row\<leftarrow>filter (\<lambda>row. b_id row = bid) (credit_batches s). used_credits row) + ?g"
    proof (cases "bid \<in> b_id ` set (credit_batches s)")
      case True
      then obtain row where row: "row \<in> set (credit_batches s)" "bid = b_id row" by auto
      have "filter (\<lambda>y. b_id y = b_id row) (credit_batches s) = [row]"
        using dtbl row(1) by (rule filter_single)
      then show ?thesis unfolding parts(2) flt using row(2) by (simp add: charge_used)
    next
      case False
      then have "filter (\<lambda>row. b_id row = bid) (credit_batches s) = []" by (rule filter_absent)
      moreover have "bid \<notin> fst ` set ?ds"
        using False deductions_fst[of ?A n] select_batches_subset[of p now s] by blast
      then have "map_of ?ds bid = None" by (simp add: map_of_eq_None_iff)
      ultimately show ?thesis unfolding parts(2) flt by simp
    qed
    show "(\<Sum>u\<leftarrow>filter (\<lambda>u. batch_id u = bid) (credit_usage s'). credits_used u) =
             (\<Sum>row\<leftarrow>filter (\<lambda>row. b_id row = bid) (credit_batches s'). used_credits row)"
      using lhs rhs old by simp
  qed
  have c4: "\<forall>u \<in> set (credit_usage s'). batch_id u < next_uuid s'"
  proof
    fix u assume "u \<in> set (credit_usage s')"
    then consider "u \<in> set (credit_usage s)"
      | "u \<in> set (usage_rows p name aid now (next_uuid s) ?ds)"
      unfolding parts(3) by auto
    then show "batch_id u < next_uuid s'"
    proof cases
      case 1
      then have "batch_id u < next_uuid s" using assms(1) by (simp add: ledger_inv_def)
      then show ?thesis using parts(5) by simp
    next
      case 2
      then have "(batch_id u, credits_used u)
          \<in> set (map (\<lambda>u. (batch_id u, credits_used u)) (usage_rows p name aid now (next_uuid s) ?ds))"
        by force
      then have "(batch_id u, credits_used u) \<in> set ?ds" unfolding usage_rows_pairs .
      then have "batch_id u \<in> fst ` set ?ds" by force
      then have "batch_id u \<in> b_id ` set (credit_batches s)"
        using deductions_fst[of ?A n] select_batches_subset[of p now s] by blast
      then have "batch_id u < next_uuid s" using assms(1) by (auto simp: ledger_inv_def)
      then show ?thesis using parts(5) by simp
    qed
  qed
  from c1 c2 c3 c4 show ?thesis by (simp add: ledger_inv_def)
qed

lemma ledger_inv_perform: "ledger_inv s \<Longrightarrow> ledger_inv (perform now c s)"
  using perform_cases[of now c s] ledger_inv_add_credits ledger_inv_deduct_credits
  by metis

lemma ledger_inv_run: "ledger_inv s \<Longrightarrow> ledger_inv (run cs s)"
  by (induction cs arbitrary: s) (auto simp: ledger_inv_perform)

lemma charged_le:
  assumes "primary_key s" and "row \<in> set (credit_batches s)"
    and "used_credits row \<le> credits row \<or> used_credits row = 0"
  shows "used_credits (charge (deductions (select_batches p now s) n) now row)
           \<le> credits (charge (deductions (select_batches p now s) n) now row)
       \<or> used_credits (charge (deductions (select_batches p now s) n) now row) = 0"
proof (cases "map_of (deductions (select_batches p now s) n) (b_id row)")
  case None
  then show ?thesis using assms(3) by (simp add: charge_def)
next
  case (Some m)
  from charged_row(1)[OF assms(1,2) Some] show ?thesis using Some by (simp add: charge_def)
qed

lemma charged_mono:
  assumes "primary_key s" and "row \<in> set (credit_batches s)" and "0 \<le> n"
  shows "used_credits row
           \<le> used_credits (charge (deductions (select_batches p now s) n) now row)"
proof (cases "map_of (deductions (select_batches p now s) n) (b_id row)")
  case None
  then show ?thesis by (simp add: charge_def)
next
  case (Some m)
  from charged_row(2)[OF assms(1,2) Some assms(3)] show ?thesis using Some by (simp add: charge_def)
qed

lemma below_size_perform:
  assumes "ledger_inv s" and "below_size s"
  shows "below_size (perform now c s)"
proof -
  have pk: "primary_key s" using assms(1) by (simp add: ledger_inv_def)
  consider "perform now c s = s"
    | u n t d i where "add_credits u n t d now s = Inr (i, perform now c s)"
    | u n name aid ok where "deduct_credits u n name aid now s = Inr (ok, perform now c s)"
    using perform_cases[of now c s] by blast
  then show ?thesis
  proof cases
    case 1
    then show ?thesis using assms(2) by simp
  next
    case 2
    from add_credits_Inr(2)[OF 2] show ?thesis
      using assms(2) by (auto simp: below_size_def new_batch_def) 
  next
    case 3
    note parts = deduct_credits_parts[OF pk 3]
    show ?thesis unfolding below_size_def parts(2)
      using charged_le[OF pk] assms(2) by (auto simp: below_size_def)
  qed
qed

lemma below_size_run: "ledger_inv s \<Longrightarrow> below_size s \<Longrightarrow> below_size (run cs s)"
  by (induction cs arbitrary: s) (auto simp: ledger_inv_perform below_size_perform)

lemma not_negative_perform:
  assumes "ledger_inv s" and "not_negative s"
    and "\<forall>u n name aid. c = Deduct_credits u n name aid \<longrightarrow> 0 \<le> n"
  shows "not_negative (perform now c s)"
proof -
  have pk: "primary_key s" using assms(1) by (simp add: ledger_inv_def)
  consider "perform now c s = s"
    | u n t d i where "add_credits u n t d now s = Inr (i, perform now c s)"
    | u n name aid ok where "c = Deduct_credits u n name aid"
        "deduct_credits u n name aid now s = Inr (ok, perform now c s)"
    using perform_cases[of now c s] by blast
  then show ?thesis
  proof cases
    case 1
    then show ?thesis using assms(2) by simp
  next
    case 2
    from add_credits_Inr(2)[OF 2] show ?thesis
      using assms(2) by (auto simp: not_negative_def new_batch_def)
  next
    case 3
    note parts = deduct_credits_parts[OF pk 3(2)]
    have n: "0 \<le> n" using assms(3) 3(1) by simp
    show ?thesis unfolding not_negative_def parts(2)
    proof
      fix row' assume "row' \<in> set (map (charge (deductions (select_batches u now s) n) now)
                                    (credit_batches s))"
      then obtain row where row: "row \<in> set (credit_batches s)"
        "row' = charge (deductions (select_batches u now s) n) now row" by auto
      have "0 \<le> used_credits row" using assms(2) row(1) by (simp add: not_negative_def)
      then show "0 \<le> used_credits row'"
        using charged_mono[OF pk row(1) n, of u now] row(2) by simp
    qed
  qed
qed

lemma not_negative_run:
  "ledger_inv s \<Longrightarrow> not_negative s \<Longrightarrow>
   \<forall>now u n name aid. (now, Deduct_credits u n name aid) \<in> set cs \<longrightarrow> 0 \<le> n \<Longrightarrow>
   not_negative (run cs s)"
proof (induction cs arbitrary: s)
  case Nil
  then show ?case by simp
next
  case (Cons x cs)
  obtain now c where x: "x = (now, c)" by (cases x)
  have "\<forall>u n name aid. c = Deduct_credits u n name aid \<longrightarrow> 0 \<le> n"
    using Cons.prems(3) x by auto
  then have "not_negative (perform now c s)"
    using Cons.prems(1,2) by (intro not_negative_perform)
  moreover have "ledger_inv (perform now c s)" using Cons.prems(1) by (rule ledger_inv_perform)
  moreover have "\<forall>now u n name aid. (now, Deduct_credits u n name aid) \<in> set cs \<longrightarrow> 0 \<le> n"
    using Cons.prems(3) by auto
  ultimately show ?case using Cons.IH x by simp
qed

lemma perform_rows:
  assumes "primary_key s" and "i < length (credit_batches s)"
  shows "length (credit_batches s) \<le> length (credit_batches (perform now c s))"
    and "credits (credit_batches (perform now c s) ! i) = credits (credit_batches s ! i)"
    and "subscription_type (credit_batches (perform now c s) ! i)
           = subscription_type (credit_batches s ! i)"
    and "(\<forall>u n name aid. c \<noteq> Deduct_credits u n name aid) \<longrightarrow>
           credit_batches (perform now c s) ! i = credit_batches s ! i"
    and "(\<forall>u n name aid. c = Deduct_credits u n name aid \<longrightarrow> 0 \<le> n) \<longrightarrow>
           used_credits (credit_batches s ! i) \<le> used_credits (credit_batches (perform now c s) ! i)"
proof -
  define s' where "s' = perform now c s"
  let ?tbl = "credit_batches s"
  let ?tbl' = "credit_batches s'"
  have mem: "?tbl ! i \<in> set ?tbl" using assms(2) by simp
  consider "s' = s"
    | u n t d j where "add_credits u n t d now s = Inr (j, s')"
    | u n name aid ok where "c = Deduct_credits u n name aid"
        "deduct_credits u n name aid now s = Inr (ok, s')"
    using perform_cases[of now c s] unfolding s'_def by blast
  then have "length ?tbl \<le> length ?tbl'
      \<and> credits (?tbl' ! i) = credits (?tbl ! i)
      \<and> subscription_type (?tbl' ! i) = subscription_type (?tbl ! i)
      \<and> ((\<forall>u n name aid. c \<noteq> Deduct_credits u n name aid) \<longrightarrow> ?tbl' ! i = ?tbl ! i)
      \<and> ((\<forall>u n name aid. c = Deduct_credits u n name aid \<longrightarrow> 0 \<le> n) \<longrightarrow>
           used_credits (?tbl ! i) \<le> used_credits (?tbl' ! i))"
  proof cases
    case 1
    then show ?thesis by simp
  next
    case 2
    obtain row where "?tbl' = ?tbl @ [row]" using add_credits_rows[OF 2] by blast
    then show ?thesis using assms(2) by (simp add: nth_append)
  next
    case 3
    let ?ds = "deductions (select_batches u now s) n"
    note parts = deduct_credits_parts[OF assms(1) 3(2)]
    have row: "?tbl' ! i = charge ?ds now (?tbl ! i)" using parts(2) assms(2) by simp
    have len: "length ?tbl \<le> length ?tbl'" using parts(2) by simp
    have fixed: "credits (?tbl' ! i) = credits (?tbl ! i)"
      "subscription_type (?tbl' ! i) = subscription_type (?tbl ! i)"
      unfolding row by (simp_all add: charge_fixed)
    have mono: "0 \<le> n \<Longrightarrow> used_credits (?tbl ! i) \<le> used_credits (?tbl' ! i)"
      unfolding row using charged_mono[OF assms(1) mem] by simp
    have "(\<forall>u n name aid. c = Deduct_credits u n name aid \<longrightarrow> 0 \<le> n) \<longrightarrow>
           used_credits (?tbl ! i) \<le> used_credits (?tbl' ! i)"
      using mono 3(1) by blast
    moreover have "(\<forall>u n name aid. c \<noteq> Deduct_credits u n name aid) \<longrightarrow> ?tbl' ! i = ?tbl ! i"
      using 3(1) by blast
    ultimately show ?thesis using len fixed by blast
  qed
  then show "length (credit_batches s) \<le> length (credit_batches (perform now c s))"
    and "credits (credit_batches (perform now c s) ! i) = credits (credit_batches s ! i)"
    and "subscription_type (credit_batches (perform now c s) ! i)
           = subscription_type (credit_batches s ! i)"
    and "(\<forall>u n name aid. c \<noteq> Deduct_credits u n name aid) \<longrightarrow>
           credit_batches (perform now c s) ! i = credit_batches s ! i"
    and "(\<forall>u n name aid. c = Deduct_credits u n name aid \<longrightarrow> 0 \<le> n) \<longrightarrow>
           used_credits (credit_batches s ! i) \<le> used_credits (credit_batches (perform now c s) ! i)"
    unfolding s'_def by blast+
qed

section \<open>Evaluation of examples\<close>

lemmas ledger_defs = deduct_credits_def available_in_range_def int4_def select_batches_def
  selected_def insert_credit_usage_def
  update_used_credits_def primary_key_def days_def batch_row_def appended_def Let_def

lemmas call_defs = add_credits_def insert_credit_batch_def subscription_type_check_def
  timestamptz_range_def add_plan_credits_def getRemainingCredits_def empty_ledger_def

lemma run_example_calls:
  "run example_calls empty_ledger =
     \<lparr>credit_batches =
        [\<lparr>b_id = 0, b_user_id = 7, credits = 5, used_credits = 5, subscription_type = ''free'',
          expires_at = 100 + days 30, b_created_at = 100, b_updated_at = 200\<rparr>,
         \<lparr>b_id = 1, b_user_id = 7, credits = 50, used_credits = 3, subscription_type = ''student'',
          expires_at = 150 + days 30, b_created_at = 150, b_updated_at = 200\<rparr>],
      credit_usage =
        [\<lparr>u_id = 2, u_user_id = 7, batch_id = 0, credits_used = 5,
          assignment_name = ''essay'', assignment_id = None, u_created_at = 200\<rparr>,
         \<lparr>u_id = 3, u_user_id = 7, batch_id = 1, credits_used = 3,
          assignment_name = ''essay'', assignment_id = None, u_created_at = 200\<rparr>],
      next_uuid = 4\<rparr>"
  by (simp add: example_calls_def call_defs ledger_defs)

section \<open>The claims\<close>

text \<open>
  C1. After every sequence of calls that starts from the empty ledger, and so after
  every call of it, the amounts of the usage rows that reference a batch add up to
  the \<open>used_credits\<close> of that batch. Call by call: \<open>deduct_credits\<close> changes the
  \<open>used_credits\<close> of a batch by exactly the sum of the usage rows that it inserts for
  that batch (a call that raises changes neither table), and \<open>add_credits\<close> inserts
  no usage row and appends a batch with \<open>used_credits = 0\<close> whose identifier no batch
  and no usage row carries yet.
\<close>

theorem usage_matches_consumed:
  "(\<forall>row \<in> set (credit_batches (run cs empty_ledger)).
      (\<Sum>u\<leftarrow>filter (\<lambda>u. batch_id u = b_id row) (credit_usage (run cs empty_ledger)).
         credits_used u) = used_credits row)
   \<and> (\<forall>ok s'. deduct_credits p n name aid now (run cs empty_ledger) = Inr (ok, s') \<longrightarrow>
        (\<forall>i < length (credit_batches (run cs empty_ledger)).
           used_credits (credit_batches s' ! i) =
             used_credits (credit_batches (run cs empty_ledger) ! i)
             + (\<Sum>u\<leftarrow>filter (\<lambda>u. batch_id u = b_id (credit_batches (run cs empty_ledger) ! i))
                        (appended (run cs empty_ledger) s').
                  credits_used u)))
   \<and> (\<forall>new_batch_id s'. add_credits u m t d now (run cs empty_ledger) = Inr (new_batch_id, s') \<longrightarrow>
        credit_usage s' = credit_usage (run cs empty_ledger)
      \<and> butlast (credit_batches s') = credit_batches (run cs empty_ledger)
      \<and> used_credits (last (credit_batches s')) = 0
      \<and> b_id (last (credit_batches s')) = new_batch_id
      \<and> new_batch_id \<notin> b_id ` set (credit_batches (run cs empty_ledger))
      \<and> new_batch_id \<notin> batch_id ` set (credit_usage (run cs empty_ledger)))"
proof -
  let ?s = "run cs empty_ledger"
  have inv: "ledger_inv ?s" using ledger_inv_empty by (rule ledger_inv_run)
  then have pk: "primary_key ?s" by (simp add: ledger_inv_def)
  have c1: "\<forall>row \<in> set (credit_batches ?s).
      (\<Sum>u\<leftarrow>filter (\<lambda>u. batch_id u = b_id row) (credit_usage ?s). credits_used u) = used_credits row"
    using inv by (simp add: ledger_inv_row)
  have c2: "\<forall>ok s'. deduct_credits p n name aid now ?s = Inr (ok, s') \<longrightarrow>
        (\<forall>i < length (credit_batches ?s).
           used_credits (credit_batches s' ! i) =
             used_credits (credit_batches ?s ! i)
             + (\<Sum>u\<leftarrow>filter (\<lambda>u. batch_id u = b_id (credit_batches ?s ! i)) (appended ?s s').
                  credits_used u))"
    using deduct_credits_delta[OF pk] by blast
  have c3: "\<forall>new_batch_id s'. add_credits u m t d now ?s = Inr (new_batch_id, s') \<longrightarrow>
        credit_usage s' = credit_usage ?s
      \<and> butlast (credit_batches s') = credit_batches ?s
      \<and> used_credits (last (credit_batches s')) = 0
      \<and> b_id (last (credit_batches s')) = new_batch_id
      \<and> new_batch_id \<notin> b_id ` set (credit_batches ?s)
      \<and> new_batch_id \<notin> batch_id ` set (credit_usage ?s)"
  proof (intro allI impI)
    fix new_batch_id s' assume add: "add_credits u m t d now ?s = Inr (new_batch_id, s')"
    note id = add_credits_Inr(1)[OF add] and s' = add_credits_Inr(2)[OF add]
    have fresh: "next_uuid ?s \<notin> b_id ` set (credit_batches ?s)"
      using inv by (auto simp: ledger_inv_def)
    have fresh': "next_uuid ?s \<notin> batch_id ` set (credit_usage ?s)"
      using inv by (auto simp: ledger_inv_def)
    show "credit_usage s' = credit_usage ?s
      \<and> butlast (credit_batches s') = credit_batches ?s
      \<and> used_credits (last (credit_batches s')) = 0
      \<and> b_id (last (credit_batches s')) = new_batch_id
      \<and> new_batch_id \<notin> b_id ` set (credit_batches ?s)
      \<and> new_batch_id \<notin> batch_id ` set (credit_usage ?s)"
      using fresh fresh' id by (simp add: s' new_batch_def)
  qed
  from c1 c2 c3 show ?thesis by blast
qed

theorem usage_matches_consumed_witness:
  "map b_id (credit_batches (run example_calls empty_ledger)) = [0, 1]
   \<and> map used_credits (credit_batches (run example_calls empty_ledger)) = [5, 3]
   \<and> map batch_id (credit_usage (run example_calls empty_ledger)) = [0, 1]
   \<and> map credits_used (credit_usage (run example_calls empty_ledger)) = [5, 3]
   \<and> (case deduct_credits 7 4 ''quiz'' None 300 (run example_calls empty_ledger) of
         Inl e \<Rightarrow> False
       | Inr (ok, s') \<Rightarrow>
           ok \<and> map used_credits (credit_batches s') = [5, 7]
         \<and> map batch_id (appended (run example_calls empty_ledger) s') = [1]
         \<and> map credits_used (appended (run example_calls empty_ledger) s') = [4])
   \<and> (case add_credits 7 20 ''pro'' 30 300 (run example_calls empty_ledger) of
         Inl e \<Rightarrow> False
       | Inr (new_batch_id, s') \<Rightarrow>
           new_batch_id = 4 \<and> map b_id (credit_batches s') = [0, 1, 4]
         \<and> map used_credits (credit_batches s') = [5, 3, 0])"
proof -
  have deduct: "deduct_credits 7 4 ''quiz'' None 300 (run example_calls empty_ledger) =
     Inr (True, \<lparr>credit_batches =
        [\<lparr>b_id = 0, b_user_id = 7, credits = 5, used_credits = 5, subscription_type = ''free'',
          expires_at = 100 + days 30, b_created_at = 100, b_updated_at = 200\<rparr>,
         \<lparr>b_id = 1, b_user_id = 7, credits = 50, used_credits = 7, subscription_type = ''student'',
          expires_at = 150 + days 30, b_created_at = 150, b_updated_at = 300\<rparr>],
      credit_usage =
        [\<lparr>u_id = 2, u_user_id = 7, batch_id = 0, credits_used = 5,
          assignment_name = ''essay'', assignment_id = None, u_created_at = 200\<rparr>,
         \<lparr>u_id = 3, u_user_id = 7, batch_id = 1, credits_used = 3,
          assignment_name = ''essay'', assignment_id = None, u_created_at = 200\<rparr>,
         \<lparr>u_id = 4, u_user_id = 7, batch_id = 1, credits_used = 4,
          assignment_name = ''quiz'', assignment_id = None, u_created_at = 300\<rparr>],
      next_uuid = 5\<rparr>)"
    unfolding run_example_calls by (simp add: ledger_defs)
  have add: "add_credits 7 20 ''pro'' 30 300 (run example_calls empty_ledger) =
     Inr (4, (run example_calls empty_ledger)
       \<lparr>credit_batches := credit_batches (run example_calls empty_ledger) @
          [new_batch 4 7 20 ''pro'' (300 + days 90) 300], next_uuid := 5\<rparr>)"
    unfolding add_credits_char by (simp add: run_example_calls)
  from usage_matches_consumed[where cs = example_calls and p = 7 and n = 4 and name = "''quiz''"
      and aid = None and now = 300 and u = 7 and m = 20 and t = "''pro''" and d = 30]
  show ?thesis
    unfolding deduct add by (simp add: run_example_calls appended_def new_batch_def)
qed



text \<open>
  C3. When the credits available over the owner's active batches add up to less than
  a positive requested amount, \<open>deduct_credits\<close> returns false and is not atomic: the
  ledger it leaves has every active batch drained (\<open>used_credits = credits\<close>), every
  other row as it was, and one usage row per active batch, for what that batch had
  available; nothing is rolled back. The call does return when the amount is an
  \<^verbatim>\<open>INTEGER\<close> and the query can subtract on the owner's rows. The witness is the
  example: one active batch of 5 credits, none used; deducting 10 returns false,
  leaves \<open>used_credits = 5\<close> and inserts one usage row of 5.
\<close>

theorem deduct_credits_insufficient:
  assumes "primary_key s" and "0 < n"
    and "(\<Sum>b\<leftarrow>select_batches p now s. credits b - used_credits b) < n"
  shows "(\<forall>ok s'. deduct_credits p n name aid now s = Inr (ok, s') \<longrightarrow>
           \<not> ok
         \<and> credit_batches s' =
             map (\<lambda>row. if b_user_id row = p \<and> expires_at row > now
                              \<and> credits row - used_credits row > 0
                         then row\<lparr>used_credits := credits row, b_updated_at := now\<rparr> else row)
                 (credit_batches s)
         \<and> credit_usage s' = credit_usage s @ appended s s'
         \<and> map (\<lambda>u. (batch_id u, credits_used u)) (appended s s') =
             map (\<lambda>b. (b_id b, credits b - used_credits b)) (select_batches p now s))
       \<and> (int4 n \<and> available_in_range p now s \<longrightarrow>
            (\<exists>s'. deduct_credits p n name aid now s = Inr (False, s')))"
proof -
  let ?A = "select_batches p now s"
  have nc: "\<not> covered ?A n"
    using covered_iff[OF select_batches_positive assms(2), of p now s] assms(3) by simp
  then have ds: "deductions ?A n = map (\<lambda>b. (b_id b, credits b - used_credits b)) ?A"
    by (rule deductions_exhausted)
  have c1: "\<forall>ok s'. deduct_credits p n name aid now s = Inr (ok, s') \<longrightarrow>
           \<not> ok
         \<and> credit_batches s' =
             map (\<lambda>row. if b_user_id row = p \<and> expires_at row > now
                              \<and> credits row - used_credits row > 0
                         then row\<lparr>used_credits := credits row, b_updated_at := now\<rparr> else row)
                 (credit_batches s)
         \<and> credit_usage s' = credit_usage s @ appended s s'
         \<and> map (\<lambda>u. (batch_id u, credits_used u)) (appended s s') =
             map (\<lambda>b. (b_id b, credits b - used_credits b)) ?A"
  proof (intro allI impI)
    fix ok s' assume r: "deduct_credits p n name aid now s = Inr (ok, s')"
    note parts = deduct_credits_parts[OF assms(1) r]
    have "credit_batches s' =
             map (\<lambda>row. if selected p now row
                         then row\<lparr>used_credits := credits row, b_updated_at := now\<rparr> else row)
                 (credit_batches s)"
      unfolding parts(2) using assms(1) ds by (rule charge_selected_all)
    then have tbl: "credit_batches s' =
             map (\<lambda>row. if b_user_id row = p \<and> expires_at row > now
                              \<and> credits row - used_credits row > 0
                         then row\<lparr>used_credits := credits row, b_updated_at := now\<rparr> else row)
                 (credit_batches s)"
      by (simp add: selected_def)
    have us: "credit_usage s' = credit_usage s @ appended s s'" using parts(3,4) by simp
    have pairs: "map (\<lambda>u. (batch_id u, credits_used u)) (appended s s') =
             map (\<lambda>b. (b_id b, credits b - used_credits b)) ?A"
      unfolding parts(4) usage_rows_pairs by (rule ds)
    from nc parts(1) tbl us pairs show "\<not> ok
         \<and> credit_batches s' =
             map (\<lambda>row. if b_user_id row = p \<and> expires_at row > now
                              \<and> credits row - used_credits row > 0
                         then row\<lparr>used_credits := credits row, b_updated_at := now\<rparr> else row)
                 (credit_batches s)
         \<and> credit_usage s' = credit_usage s @ appended s s'
         \<and> map (\<lambda>u. (batch_id u, credits_used u)) (appended s s') =
             map (\<lambda>b. (b_id b, credits b - used_credits b)) ?A"
      by simp
  qed
  have c2: "int4 n \<and> available_in_range p now s \<longrightarrow>
            (\<exists>s'. deduct_credits p n name aid now s = Inr (False, s'))"
  proof
    assume h: "int4 n \<and> available_in_range p now s"
    then have "fits ?A n"
      using fits_exhausted[OF assms(2) _ select_batches_in_range nc] by simp
    then obtain ok s' where r: "deduct_credits p n name aid now s = Inr (ok, s')"
      using deduct_credits_returns[OF assms(1)] h by blast
    then have "\<not> ok" using c1 by blast
    then show "\<exists>s'. deduct_credits p n name aid now s = Inr (False, s')" using r by auto
  qed
  from c1 c2 show ?thesis by blast
qed

theorem deduct_credits_insufficient_witness:
  "primary_key one_batch \<and> (0::int) < 10
   \<and> (\<Sum>b\<leftarrow>select_batches 7 100 one_batch. credits b - used_credits b) < 10
   \<and> int4 10 \<and> available_in_range 7 100 one_batch
   \<and> deduct_credits 7 10 ''essay'' None 100 one_batch =
       Inr (False,
        \<lparr>credit_batches = [(batch_row 0 7 5 5 (days 30))\<lparr>b_updated_at := 100\<rparr>],
         credit_usage =
           [\<lparr>u_id = 1, u_user_id = 7, batch_id = 0, credits_used = 5,
             assignment_name = ''essay'', assignment_id = None, u_created_at = 100\<rparr>],
         next_uuid = 2\<rparr>)"
proof -
  have pk: "primary_key one_batch"
    by (simp add: one_batch_def ledger_defs)
  have less: "(\<Sum>b\<leftarrow>select_batches 7 100 one_batch. credits b - used_credits b) < 10"
    by (simp add: one_batch_def ledger_defs)
  have rng: "int4 10 \<and> available_in_range 7 100 one_batch"
    by (simp add: one_batch_def ledger_defs)
  have run: "deduct_credits 7 10 ''essay'' None 100 one_batch =
       Inr (False,
        \<lparr>credit_batches = [(batch_row 0 7 5 5 (days 30))\<lparr>b_updated_at := 100\<rparr>],
         credit_usage =
           [\<lparr>u_id = 1, u_user_id = 7, batch_id = 0, credits_used = 5,
             assignment_name = ''essay'', assignment_id = None, u_created_at = 100\<rparr>],
         next_uuid = 2\<rparr>)"
    by (simp add: one_batch_def ledger_defs)
  from deduct_credits_insufficient[OF pk _ less, of "''essay''" None] pk less rng run
  show ?thesis by simp
qed

text \<open>
  C4. For a positive requested amount, \<open>deduct_credits\<close> returns true if and only if
  the full amount was deducted: the amounts of the usage rows it inserted add up to
  the request, equivalently the \<open>used_credits\<close> of the table grew by the request,
  equivalently the active batches had at least that much available. A request equal to
  the total available drains every active batch and returns true. The call returns
  when the amount and the counters of the batches are \<^verbatim>\<open>INTEGER\<close>s and the query
  can subtract on the owner's rows. The witness is the
  example: B1 of 5 credits is exhausted, B2 has 3 and B3 has 2, B2 expiring before B3;
  deducting 5 drains both, inserts usage rows of 3 and 2, and returns true.
\<close>

theorem deduct_credits_true_iff:
  assumes "primary_key s" and "0 < n"
  shows "(\<forall>ok s'. deduct_credits p n name aid now s = Inr (ok, s') \<longrightarrow>
         (ok \<longleftrightarrow> sum_list (map credits_used (appended s s')) = n)
         \<and> (ok \<longleftrightarrow> (\<Sum>row\<leftarrow>credit_batches s'. used_credits row) =
                     (\<Sum>row\<leftarrow>credit_batches s. used_credits row) + n)
         \<and> (ok \<longleftrightarrow> n \<le> (\<Sum>b\<leftarrow>select_batches p now s. credits b - used_credits b))
         \<and> (n = (\<Sum>b\<leftarrow>select_batches p now s. credits b - used_credits b) \<longrightarrow>
              ok
            \<and> credit_batches s' =
                map (\<lambda>row. if b_user_id row = p \<and> expires_at row > now
                                 \<and> credits row - used_credits row > 0
                            then row\<lparr>used_credits := credits row, b_updated_at := now\<rparr> else row)
                    (credit_batches s)
            \<and> map (\<lambda>u. (batch_id u, credits_used u)) (appended s s') =
                map (\<lambda>b. (b_id b, credits b - used_credits b)) (select_batches p now s)))
       \<and> (int4 n \<and> available_in_range p now s \<and> integer_columns s \<longrightarrow>
            (\<exists>ok s'. deduct_credits p n name aid now s = Inr (ok, s')))"
proof -
  have main: "\<forall>ok s'. deduct_credits p n name aid now s = Inr (ok, s') \<longrightarrow>
         (ok \<longleftrightarrow> sum_list (map credits_used (appended s s')) = n)
         \<and> (ok \<longleftrightarrow> (\<Sum>row\<leftarrow>credit_batches s'. used_credits row) =
                     (\<Sum>row\<leftarrow>credit_batches s. used_credits row) + n)
         \<and> (ok \<longleftrightarrow> n \<le> (\<Sum>b\<leftarrow>select_batches p now s. credits b - used_credits b))
         \<and> (n = (\<Sum>b\<leftarrow>select_batches p now s. credits b - used_credits b) \<longrightarrow>
              ok
            \<and> credit_batches s' =
                map (\<lambda>row. if b_user_id row = p \<and> expires_at row > now
                                 \<and> credits row - used_credits row > 0
                            then row\<lparr>used_credits := credits row, b_updated_at := now\<rparr> else row)
                    (credit_batches s)
            \<and> map (\<lambda>u. (batch_id u, credits_used u)) (appended s s') =
                map (\<lambda>b. (b_id b, credits b - used_credits b)) (select_batches p now s))"
  proof (intro allI impI)
    fix ok s' assume r: "deduct_credits p n name aid now s = Inr (ok, s')"

    let ?A = "select_batches p now s"
    let ?total = "\<Sum>b\<leftarrow>?A. credits b - used_credits b"
    note parts = deduct_credits_parts[OF assms(1) r]
    note pos = select_batches_positive[of p now s]
    have cov: "ok \<longleftrightarrow> n \<le> ?total"
      using covered_iff[OF pos assms(2)] parts(1) by simp
    have "map credits_used (appended s s') = map snd (map (\<lambda>u. (batch_id u, credits_used u)) (appended s s'))"
      by (simp add: o_def)
    then have "sum_list (map credits_used (appended s s')) = sum_list (map snd (deductions ?A n))"
      unfolding parts(4) usage_rows_pairs by simp
    then have sum: "sum_list (map credits_used (appended s s')) = (if ok then n else ?total)"
      using deductions_sum[OF pos assms(2)] parts(1) by simp
    have c1: "ok \<longleftrightarrow> sum_list (map credits_used (appended s s')) = n"
      using sum cov by auto
    have c2: "ok \<longleftrightarrow> (\<Sum>row\<leftarrow>credit_batches s'. used_credits row) =
                     (\<Sum>row\<leftarrow>credit_batches s. used_credits row) + n"
      using c1 deduct_credits_total[OF assms(1) r] by simp
    have c4: "n = ?total \<longrightarrow>
              ok
            \<and> credit_batches s' =
                map (\<lambda>row. if b_user_id row = p \<and> expires_at row > now
                                 \<and> credits row - used_credits row > 0
                            then row\<lparr>used_credits := credits row, b_updated_at := now\<rparr> else row)
                    (credit_batches s)
            \<and> map (\<lambda>u. (batch_id u, credits_used u)) (appended s s') =
                map (\<lambda>b. (b_id b, credits b - used_credits b)) ?A"
    proof
      assume eq: "n = ?total"
      then have ne: "?A \<noteq> []" using assms(2) by auto
      have ds: "deductions ?A n = map (\<lambda>b. (b_id b, credits b - used_credits b)) ?A"
        using pos ne eq by (rule deductions_exact)
      have "credit_batches s' =
             map (\<lambda>row. if selected p now row
                         then row\<lparr>used_credits := credits row, b_updated_at := now\<rparr> else row)
                 (credit_batches s)"
        unfolding parts(2) using assms(1) ds by (rule charge_selected_all)
      then have tbl: "credit_batches s' =
                map (\<lambda>row. if b_user_id row = p \<and> expires_at row > now
                                 \<and> credits row - used_credits row > 0
                            then row\<lparr>used_credits := credits row, b_updated_at := now\<rparr> else row)
                    (credit_batches s)"
        by (simp add: selected_def)
      have pairs: "map (\<lambda>u. (batch_id u, credits_used u)) (appended s s') =
                map (\<lambda>b. (b_id b, credits b - used_credits b)) ?A"
        unfolding parts(4) usage_rows_pairs by (rule ds)
      from cov eq tbl pairs show "ok
            \<and> credit_batches s' =
                map (\<lambda>row. if b_user_id row = p \<and> expires_at row > now
                                 \<and> credits row - used_credits row > 0
                            then row\<lparr>used_credits := credits row, b_updated_at := now\<rparr> else row)
                    (credit_batches s)
            \<and> map (\<lambda>u. (batch_id u, credits_used u)) (appended s s') =
                map (\<lambda>b. (b_id b, credits b - used_credits b)) ?A" by simp
    qed
    from c1 c2 cov c4 show "(ok \<longleftrightarrow> sum_list (map credits_used (appended s s')) = n)
             \<and> (ok \<longleftrightarrow> (\<Sum>row\<leftarrow>credit_batches s'. used_credits row) =
                         (\<Sum>row\<leftarrow>credit_batches s. used_credits row) + n)
             \<and> (ok \<longleftrightarrow> n \<le> (\<Sum>b\<leftarrow>select_batches p now s. credits b - used_credits b))
             \<and> (n = (\<Sum>b\<leftarrow>select_batches p now s. credits b - used_credits b) \<longrightarrow>
                  ok
                \<and> credit_batches s' =
                    map (\<lambda>row. if b_user_id row = p \<and> expires_at row > now
                                     \<and> credits row - used_credits row > 0
                                then row\<lparr>used_credits := credits row, b_updated_at := now\<rparr> else row)
                        (credit_batches s)
                \<and> map (\<lambda>u. (batch_id u, credits_used u)) (appended s s') =
                    map (\<lambda>b. (b_id b, credits b - used_credits b)) (select_batches p now s))"
        by blast
  qed
  have total: "int4 n \<and> available_in_range p now s \<and> integer_columns s \<longrightarrow>
            (\<exists>ok s'. deduct_credits p n name aid now s = Inr (ok, s'))"
  proof
    assume h: "int4 n \<and> available_in_range p now s \<and> integer_columns s"
    then have "fits (select_batches p now s) n"
      using fits_positive[OF assms(2) _ select_batches_integer] by simp
    then show "\<exists>ok s'. deduct_credits p n name aid now s = Inr (ok, s')"
      using deduct_credits_returns[OF assms(1)] h by blast
  qed
  from main total show ?thesis by blast
qed

theorem deduct_credits_true_iff_witness:
  "primary_key three_batches \<and> (0::int) < 5
   \<and> map b_id (select_batches 7 100 three_batches) = [2, 1]
   \<and> (\<Sum>b\<leftarrow>select_batches 7 100 three_batches. credits b - used_credits b) = 5
   \<and> int4 5 \<and> integer_columns three_batches
   \<and> deduct_credits 7 5 ''essay'' None 100 three_batches =
       Inr (True,
        \<lparr>credit_batches =
           [batch_row 0 7 5 5 (days 10), (batch_row 1 7 2 2 (days 30))\<lparr>b_updated_at := 100\<rparr>,
            (batch_row 2 7 3 3 (days 20))\<lparr>b_updated_at := 100\<rparr>],
         credit_usage =
           [\<lparr>u_id = 3, u_user_id = 7, batch_id = 2, credits_used = 3,
             assignment_name = ''essay'', assignment_id = None, u_created_at = 100\<rparr>,
            \<lparr>u_id = 4, u_user_id = 7, batch_id = 1, credits_used = 2,
             assignment_name = ''essay'', assignment_id = None, u_created_at = 100\<rparr>],
         next_uuid = 5\<rparr>)"
proof -
  have pk: "primary_key three_batches"
    by (simp add: three_batches_def ledger_defs)
  have sel: "map b_id (select_batches 7 100 three_batches) = [2, 1]"
    by (simp add: three_batches_def ledger_defs)
  have rng: "int4 5 \<and> integer_columns three_batches"
    by (simp add: three_batches_def integer_columns_def ledger_defs)
  have run: "deduct_credits 7 5 ''essay'' None 100 three_batches =
       Inr (True,
        \<lparr>credit_batches =
           [batch_row 0 7 5 5 (days 10), (batch_row 1 7 2 2 (days 30))\<lparr>b_updated_at := 100\<rparr>,
            (batch_row 2 7 3 3 (days 20))\<lparr>b_updated_at := 100\<rparr>],
         credit_usage =
           [\<lparr>u_id = 3, u_user_id = 7, batch_id = 2, credits_used = 3,
             assignment_name = ''essay'', assignment_id = None, u_created_at = 100\<rparr>,
            \<lparr>u_id = 4, u_user_id = 7, batch_id = 1, credits_used = 2,
             assignment_name = ''essay'', assignment_id = None, u_created_at = 100\<rparr>],
         next_uuid = 5\<rparr>)"
    by (simp add: three_batches_def ledger_defs)
  have total: "(\<Sum>b\<leftarrow>select_batches 7 100 three_batches. credits b - used_credits b) = 5"
    by (simp add: three_batches_def ledger_defs)
  from deduct_credits_true_iff[OF pk, of 5 7 "''essay''" None 100] pk sel total rng run
  show ?thesis by simp
qed

text \<open>
  C5. For every owner and ledger, \<open>getRemainingCredits\<close> returns the sum of
  \<open>credits - used_credits\<close> over the owner's rows with \<open>expires_at > now\<close> and leaves
  the ledger as it is; a row whose \<open>expires_at\<close> is not in the future adds nothing to
  the balance, whatever its \<open>used_credits\<close>; and \<open>deduct_credits\<close> neither changes such
  a row nor inserts a usage row that references it, whenever it returns (a call that
  raises changes nothing at all).
\<close>

theorem getRemainingCredits_sum:
  "fst (getRemainingCredits u now s) =
     (\<Sum>row\<leftarrow>filter (\<lambda>row. b_user_id row = u \<and> expires_at row > now) (credit_batches s).
        credits row - used_credits row)
   \<and> snd (getRemainingCredits u now s) = s
   \<and> (expires_at b \<le> now \<longrightarrow>
        fst (getRemainingCredits u now (s\<lparr>credit_batches := before @ b # after\<rparr>)) =
        fst (getRemainingCredits u now (s\<lparr>credit_batches := before @ after\<rparr>)))
   \<and> (primary_key s \<longrightarrow>
        (\<forall>ok s'. deduct_credits p n name aid now s = Inr (ok, s') \<longrightarrow>
           (\<forall>i < length (credit_batches s). expires_at (credit_batches s ! i) \<le> now \<longrightarrow>
              credit_batches s' ! i = credit_batches s ! i
            \<and> b_id (credit_batches s ! i) \<notin> batch_id ` set (appended s s'))))"
proof -
  have c3: "expires_at b \<le> now \<longrightarrow>
        fst (getRemainingCredits u now (s\<lparr>credit_batches := before @ b # after\<rparr>)) =
        fst (getRemainingCredits u now (s\<lparr>credit_batches := before @ after\<rparr>))"
    by (simp add: getRemainingCredits_char)
  have c4: "primary_key s \<longrightarrow>
        (\<forall>ok s'. deduct_credits p n name aid now s = Inr (ok, s') \<longrightarrow>
           (\<forall>i < length (credit_batches s). expires_at (credit_batches s ! i) \<le> now \<longrightarrow>
              credit_batches s' ! i = credit_batches s ! i
            \<and> b_id (credit_batches s ! i) \<notin> batch_id ` set (appended s s')))"
  proof (intro impI allI)
    fix ok s' i assume pk: "primary_key s"
      and r: "deduct_credits p n name aid now s = Inr (ok, s')"
      and i: "i < length (credit_batches s)"
      and ex: "expires_at (credit_batches s ! i) \<le> now"
    let ?A = "select_batches p now s"
    let ?ds = "deductions ?A n"
    let ?row = "credit_batches s ! i"
    note parts = deduct_credits_parts[OF pk r]
    have row: "?row \<in> set (credit_batches s)" using i by simp
    have "\<not> selected p now ?row" using ex by (simp add: selected_def)
    then have nin: "b_id ?row \<notin> b_id ` set ?A" using pk row by (intro unselected_id)
    then have nds: "b_id ?row \<notin> fst ` set ?ds" using deductions_fst[of ?A n] by blast
    then have "charge ?ds now ?row = ?row" by (rule charge_untouched)
    then have same: "credit_batches s' ! i = ?row" using parts(2) i by simp
    have "batch_id ` set (appended s s') = fst ` set (map (\<lambda>u. (batch_id u, credits_used u)) (appended s s'))"
      by force
    then have "batch_id ` set (appended s s') = fst ` set ?ds"
      unfolding parts(4) usage_rows_pairs .
    with nds same show "credit_batches s' ! i = ?row
         \<and> b_id ?row \<notin> batch_id ` set (appended s s')"
      by simp
  qed
  from c3 c4 show ?thesis
    by (simp add: getRemainingCredits_char) (simp add: getRemainingCredits_def)
qed

theorem getRemainingCredits_sum_witness:
  "primary_key expired_batch \<and> expires_at (credit_batches expired_batch ! 0) \<le> 100
   \<and> getRemainingCredits 7 100 expired_batch = (6, expired_batch)
   \<and> deduct_credits 7 8 ''essay'' None 100 expired_batch =
       Inr (False,
        \<lparr>credit_batches = [batch_row 0 7 5 1 50, (batch_row 1 7 10 10 (days 30))\<lparr>b_updated_at := 100\<rparr>],
        credit_usage =
           [\<lparr>u_id = 2, u_user_id = 7, batch_id = 1, credits_used = 6,
             assignment_name = ''essay'', assignment_id = None, u_created_at = 100\<rparr>],
        next_uuid = 3\<rparr>)"
proof -
  have pk: "primary_key expired_batch"
    by (simp add: expired_batch_def ledger_defs)
  have ex: "expires_at (credit_batches expired_batch ! 0) \<le> 100"
    by (simp add: expired_batch_def ledger_defs)
  have bal: "getRemainingCredits 7 100 expired_batch = (6, expired_batch)"
    by (simp add: getRemainingCredits_def select_credits_def expired_batch_def ledger_defs)
  have run: "deduct_credits 7 8 ''essay'' None 100 expired_batch =
       Inr (False,
        \<lparr>credit_batches = [batch_row 0 7 5 1 50, (batch_row 1 7 10 10 (days 30))\<lparr>b_updated_at := 100\<rparr>],
        credit_usage =
           [\<lparr>u_id = 2, u_user_id = 7, batch_id = 1, credits_used = 6,
             assignment_name = ''essay'', assignment_id = None, u_created_at = 100\<rparr>],
        next_uuid = 3\<rparr>)"
    by (simp add: expired_batch_def ledger_defs)
  from getRemainingCredits_sum[of 7 100 expired_batch "batch_row 0 7 5 1 50" "[]"
      "[batch_row 1 7 10 4 (days 30)]" 7 8 "''essay''" None]
    pk ex bal run
  show ?thesis by simp
qed

text \<open>
  C6, as amended. A call of \<open>add_credits\<close> whose subscription type is one of
  \<^verbatim>\<open>student\<close>, \<^verbatim>\<open>student_yearly\<close>, \<^verbatim>\<open>pro\<close>, \<^verbatim>\<open>pro_yearly\<close>, or is \<^verbatim>\<open>free\<close> with an
  offset that keeps \<open>now\<close> plus the days within the range of a timestamp, appends
  exactly one row to \<open>credit_batches\<close>, with \<open>used_credits = 0\<close> and the requested
  size, leaves \<open>credit_usage\<close> as it was, returns the identifier of the new row, and
  sets \<open>expires_at\<close> once, at allocation: free to \<open>now\<close> plus the days the caller
  passes, student to \<open>now\<close> plus 30 days, pro to \<open>now\<close> plus 90 days, both yearly
  types to \<open>now\<close> plus 365 days. A second identical call appends a second row with an
  identifier of its own. Every other call raises and leaves the ledger as it was: with
  a type that is none of the four fixed ones and an offset that takes the expiry out
  of the range of a timestamp, the addition raises \<^verbatim>\<open>timestamp out of range\<close>; with a
  type that is none of the five and an offset within the range, the \<^verbatim>\<open>CHECK\<close>
  constraint of the table rejects the row.
\<close>

theorem add_credits_inserts:
  "(t \<in> {''student'', ''student_yearly'', ''pro'', ''pro_yearly''}
      \<or> t = ''free'' \<and> timestamptz_range (now + days d) \<longrightarrow>
      add_credits u n t d now s =
        Inr (next_uuid s,
             s\<lparr>credit_batches := credit_batches s @
                  [\<lparr>b_id = next_uuid s, b_user_id = u, credits = n, used_credits = 0,
                    subscription_type = t,
                    expires_at = now + days (if t = ''free'' then d else if t = ''student'' then 30
                                  else if t = ''pro'' then 90 else 365),
                    b_created_at = now, b_updated_at = now\<rparr>],
               next_uuid := Suc (next_uuid s)\<rparr>)
    \<and> (\<exists>s1 s2 row1 row2.
          add_credits u n t d now s = Inr (next_uuid s, s1)
        \<and> add_credits u n t d now s1 = Inr (Suc (next_uuid s), s2)
        \<and> credit_batches s2 = credit_batches s @ [row1, row2]
        \<and> b_id row1 = next_uuid s \<and> b_id row2 = Suc (next_uuid s)
        \<and> credits row1 = n \<and> credits row2 = n
        \<and> credit_usage s2 = credit_usage s))
   \<and> (t \<notin> {''student'', ''student_yearly'', ''pro'', ''pro_yearly''}
      \<and> \<not> timestamptz_range (now + days d) \<longrightarrow>
      add_credits u n t d now s = Inl timestamp_out_of_range
    \<and> perform now (Add_credits u n t d) s = s)
   \<and> (t \<notin> {''free'', ''student'', ''student_yearly'', ''pro'', ''pro_yearly''}
      \<and> timestamptz_range (now + days d) \<longrightarrow>
      add_credits u n t d now s = Inl (check_violation ''credit_batches_subscription_type_check'')
    \<and> perform now (Add_credits u n t d) s = s)"
proof -
  have c1: "t \<in> {''student'', ''student_yearly'', ''pro'', ''pro_yearly''}
      \<or> t = ''free'' \<and> timestamptz_range (now + days d) \<longrightarrow>
      add_credits u n t d now s =
        Inr (next_uuid s,
             s\<lparr>credit_batches := credit_batches s @
                  [\<lparr>b_id = next_uuid s, b_user_id = u, credits = n, used_credits = 0,
                    subscription_type = t,
                    expires_at = now + days (if t = ''free'' then d else if t = ''student'' then 30
                                  else if t = ''pro'' then 90 else 365),
                    b_created_at = now, b_updated_at = now\<rparr>],
               next_uuid := Suc (next_uuid s)\<rparr>)
    \<and> (\<exists>s1 s2 row1 row2.
          add_credits u n t d now s = Inr (next_uuid s, s1)
        \<and> add_credits u n t d now s1 = Inr (Suc (next_uuid s), s2)
        \<and> credit_batches s2 = credit_batches s @ [row1, row2]
        \<and> b_id row1 = next_uuid s \<and> b_id row2 = Suc (next_uuid s)
        \<and> credits row1 = n \<and> credits row2 = n
        \<and> credit_usage s2 = credit_usage s)"
    by (auto simp: add_credits_char new_batch_def)
  have c2: "t \<notin> {''student'', ''student_yearly'', ''pro'', ''pro_yearly''}
      \<and> \<not> timestamptz_range (now + days d) \<longrightarrow>
      add_credits u n t d now s = Inl timestamp_out_of_range
    \<and> perform now (Add_credits u n t d) s = s"
    by (simp add: add_credits_char)
  have c3: "t \<notin> {''free'', ''student'', ''student_yearly'', ''pro'', ''pro_yearly''}
      \<and> timestamptz_range (now + days d) \<longrightarrow>
      add_credits u n t d now s = Inl (check_violation ''credit_batches_subscription_type_check'')
    \<and> perform now (Add_credits u n t d) s = s"
    by (simp add: add_credits_char)
  from c1 c2 c3 show ?thesis by blast
qed

text \<open>
  C6 as stated, for every call, fails at a subscription type that the table does not
  admit: no batch is created.
\<close>

theorem add_credits_unknown_type:
  "add_credits 7 10 ''bogus'' 30 100 empty_ledger =
     Inl (check_violation ''credit_batches_subscription_type_check'')"
  by (simp add: add_credits_char timestamptz_range_def days_def)

theorem add_credits_inserts_witness:
  "add_credits 7 50 ''student'' 30 100 empty_ledger =
       Inr (0, \<lparr>credit_batches =
                 [\<lparr>b_id = 0, b_user_id = 7, credits = 50, used_credits = 0,
                   subscription_type = ''student'', expires_at = 100 + days 30,
                   b_created_at = 100, b_updated_at = 100\<rparr>],
               credit_usage = [], next_uuid = 1\<rparr>)
   \<and> timestamptz_range (100 + days 14)
   \<and> add_credits 7 10 ''free'' 14 100 empty_ledger =
       Inr (0, \<lparr>credit_batches =
                 [\<lparr>b_id = 0, b_user_id = 7, credits = 10, used_credits = 0,
                   subscription_type = ''free'', expires_at = 100 + days 14,
                   b_created_at = 100, b_updated_at = 100\<rparr>],
               credit_usage = [], next_uuid = 1\<rparr>)
   \<and> \<not> timestamptz_range (100 + days 2147483647)
   \<and> add_credits 7 10 ''free'' 2147483647 100 empty_ledger = Inl timestamp_out_of_range
   \<and> perform 100 (Add_credits 7 10 ''free'' 2147483647) empty_ledger = empty_ledger
   \<and> timestamptz_range (100 + days 30)
   \<and> add_credits 7 50 ''premium'' 30 100 empty_ledger =
       Inl (check_violation ''credit_batches_subscription_type_check'')
   \<and> perform 100 (Add_credits 7 50 ''premium'' 30) empty_ledger = empty_ledger"
proof -
  have r1: "timestamptz_range (100 + days 14)" "timestamptz_range (100 + days 30)"
    and r2: "\<not> timestamptz_range (100 + days 2147483647)"
    by (simp_all add: timestamptz_range_def days_def)
  from add_credits_inserts[of "''student''" 100 30 7 50 empty_ledger]
    add_credits_inserts[of "''free''" 100 14 7 10 empty_ledger]
    add_credits_inserts[of "''free''" 100 2147483647 7 10 empty_ledger]
    add_credits_inserts[of "''premium''" 100 30 7 50 empty_ledger]
    r1 r2
  show ?thesis by (simp add: empty_ledger_def)
qed

text \<open>
  C7. \<open>add_plan_credits\<close> maps each plan token it knows to a fixed amount and
  subscription type and inserts the batch that \<open>add_credits\<close> creates for them:
  \<^verbatim>\<open>student_monthly\<close> 50 credits as \<^verbatim>\<open>student\<close> for 30 days, \<^verbatim>\<open>student_yearly\<close> 605 as
  \<^verbatim>\<open>student_yearly\<close> for 365 days, \<^verbatim>\<open>pro_monthly\<close> 150 as \<^verbatim>\<open>pro\<close> for 90 days,
  \<^verbatim>\<open>pro_yearly\<close> 605 as \<^verbatim>\<open>pro_yearly\<close> for 365 days. For every other token it raises an
  exception, creates no batch and leaves the ledger as it was.
\<close>

theorem add_plan_credits_plans:
  "(plan = ''student_monthly'' \<longrightarrow>
      add_plan_credits u plan now s =
        Inr (next_uuid s,
             s\<lparr>credit_batches := credit_batches s @
                  [\<lparr>b_id = next_uuid s, b_user_id = u, credits = 50, used_credits = 0,
                    subscription_type = ''student'', expires_at = now + days 30,
                    b_created_at = now, b_updated_at = now\<rparr>],
               next_uuid := Suc (next_uuid s)\<rparr>))
   \<and> (plan = ''student_yearly'' \<longrightarrow>
      add_plan_credits u plan now s =
        Inr (next_uuid s,
             s\<lparr>credit_batches := credit_batches s @
                  [\<lparr>b_id = next_uuid s, b_user_id = u, credits = 605, used_credits = 0,
                    subscription_type = ''student_yearly'', expires_at = now + days 365,
                    b_created_at = now, b_updated_at = now\<rparr>],
               next_uuid := Suc (next_uuid s)\<rparr>))
   \<and> (plan = ''pro_monthly'' \<longrightarrow>
      add_plan_credits u plan now s =
        Inr (next_uuid s,
             s\<lparr>credit_batches := credit_batches s @
                  [\<lparr>b_id = next_uuid s, b_user_id = u, credits = 150, used_credits = 0,
                    subscription_type = ''pro'', expires_at = now + days 90,
                    b_created_at = now, b_updated_at = now\<rparr>],
               next_uuid := Suc (next_uuid s)\<rparr>))
   \<and> (plan = ''pro_yearly'' \<longrightarrow>
      add_plan_credits u plan now s =
        Inr (next_uuid s,
             s\<lparr>credit_batches := credit_batches s @
                  [\<lparr>b_id = next_uuid s, b_user_id = u, credits = 605, used_credits = 0,
                    subscription_type = ''pro_yearly'', expires_at = now + days 365,
                    b_created_at = now, b_updated_at = now\<rparr>],
               next_uuid := Suc (next_uuid s)\<rparr>))
   \<and> (plan \<notin> {''student_monthly'', ''student_yearly'', ''pro_monthly'', ''pro_yearly''} \<longrightarrow>
      add_plan_credits u plan now s = Inl (raise_exception (''Invalid plan type: '' @ plan))
    \<and> perform now (Add_plan_credits u plan) s = s)"
  by (simp add: add_plan_credits_def add_credits_char new_batch_def)

theorem add_plan_credits_plans_witness:
  "add_plan_credits 7 ''student_monthly'' 100 empty_ledger =
       Inr (0, \<lparr>credit_batches =
                 [\<lparr>b_id = 0, b_user_id = 7, credits = 50, used_credits = 0,
                   subscription_type = ''student'', expires_at = 100 + days 30,
                   b_created_at = 100, b_updated_at = 100\<rparr>],
               credit_usage = [], next_uuid = 1\<rparr>)
   \<and> add_plan_credits 7 ''student_yearly'' 100 empty_ledger =
       Inr (0, \<lparr>credit_batches =
                 [\<lparr>b_id = 0, b_user_id = 7, credits = 605, used_credits = 0,
                   subscription_type = ''student_yearly'', expires_at = 100 + days 365,
                   b_created_at = 100, b_updated_at = 100\<rparr>],
               credit_usage = [], next_uuid = 1\<rparr>)
   \<and> add_plan_credits 7 ''pro_monthly'' 100 empty_ledger =
       Inr (0, \<lparr>credit_batches =
                 [\<lparr>b_id = 0, b_user_id = 7, credits = 150, used_credits = 0,
                   subscription_type = ''pro'', expires_at = 100 + days 90,
                   b_created_at = 100, b_updated_at = 100\<rparr>],
               credit_usage = [], next_uuid = 1\<rparr>)
   \<and> add_plan_credits 7 ''pro_yearly'' 100 empty_ledger =
       Inr (0, \<lparr>credit_batches =
                 [\<lparr>b_id = 0, b_user_id = 7, credits = 605, used_credits = 0,
                   subscription_type = ''pro_yearly'', expires_at = 100 + days 365,
                   b_created_at = 100, b_updated_at = 100\<rparr>],
               credit_usage = [], next_uuid = 1\<rparr>)
   \<and> ''bogus'' \<notin> {''student_monthly'', ''student_yearly'', ''pro_monthly'', ''pro_yearly''}
   \<and> add_plan_credits 7 ''bogus'' 100 empty_ledger =
       Inl (raise_exception ''Invalid plan type: bogus'')
   \<and> perform 100 (Add_plan_credits 7 ''bogus'') empty_ledger = empty_ledger"
  using add_plan_credits_plans[of "''student_monthly''" 7 100 empty_ledger]
    add_plan_credits_plans[of "''student_yearly''" 7 100 empty_ledger]
    add_plan_credits_plans[of "''pro_monthly''" 7 100 empty_ledger]
    add_plan_credits_plans[of "''pro_yearly''" 7 100 empty_ledger]
    add_plan_credits_plans[of "''bogus''" 7 100 empty_ledger]
  by (simp add: empty_ledger_def)

text \<open>
  C8, as amended. In every sequence of calls from the empty ledger, whatever the
  amounts, every batch whose size is not negative has \<open>used_credits \<le> credits\<close>; in
  every sequence in which no amount deducted is negative, every batch has
  \<open>0 \<le> used_credits\<close>. At every ledger that a sequence of calls reaches, and for every
  further call: the batches keep their places, sizes and subscription types; a call
  other than \<open>deduct_credits\<close> leaves every existing row as it is; and \<open>deduct_credits\<close>
  with an amount that is not negative lowers no \<open>used_credits\<close>.
\<close>

theorem consumed_within_size:
  "(\<forall>row \<in> set (credit_batches (run cs empty_ledger)).
      0 \<le> credits row \<longrightarrow> used_credits row \<le> credits row)
   \<and> ((\<forall>now u n name aid. (now, Deduct_credits u n name aid) \<in> set cs \<longrightarrow> 0 \<le> n) \<longrightarrow>
      (\<forall>row \<in> set (credit_batches (run cs empty_ledger)). 0 \<le> used_credits row))
   \<and> (\<forall>i < length (credit_batches (run cs empty_ledger)).
        i < length (credit_batches (perform now c (run cs empty_ledger)))
      \<and> credits (credit_batches (perform now c (run cs empty_ledger)) ! i)
           = credits (credit_batches (run cs empty_ledger) ! i)
      \<and> subscription_type (credit_batches (perform now c (run cs empty_ledger)) ! i)
           = subscription_type (credit_batches (run cs empty_ledger) ! i)
      \<and> ((\<forall>u n name aid. c \<noteq> Deduct_credits u n name aid) \<longrightarrow>
           credit_batches (perform now c (run cs empty_ledger)) ! i
             = credit_batches (run cs empty_ledger) ! i)
      \<and> ((\<forall>u n name aid. c = Deduct_credits u n name aid \<longrightarrow> 0 \<le> n) \<longrightarrow>
           used_credits (credit_batches (run cs empty_ledger) ! i)
             \<le> used_credits (credit_batches (perform now c (run cs empty_ledger)) ! i)))"
proof -
  let ?s = "run cs empty_ledger"
  have inv: "ledger_inv ?s" using ledger_inv_empty by (rule ledger_inv_run)
  then have pk: "primary_key ?s" by (simp add: ledger_inv_def)
  have "below_size ?s"
    using ledger_inv_empty by (rule below_size_run) (simp add: below_size_def empty_ledger_def)
  then have c0: "\<forall>row \<in> set (credit_batches ?s).
      0 \<le> credits row \<longrightarrow> used_credits row \<le> credits row"
    by (auto simp: below_size_def)
  have c1: "(\<forall>now u n name aid. (now, Deduct_credits u n name aid) \<in> set cs \<longrightarrow> 0 \<le> n) \<longrightarrow>
      (\<forall>row \<in> set (credit_batches ?s). 0 \<le> used_credits row)"
  proof
    assume nonneg: "\<forall>now u n name aid. (now, Deduct_credits u n name aid) \<in> set cs \<longrightarrow> 0 \<le> n"
    have "not_negative empty_ledger" by (simp add: not_negative_def empty_ledger_def)
    with ledger_inv_empty have "not_negative ?s" using nonneg by (rule not_negative_run)
    then show "\<forall>row \<in> set (credit_batches ?s). 0 \<le> used_credits row"
      by (simp add: not_negative_def)
  qed
  have c2: "\<forall>i < length (credit_batches ?s).
        i < length (credit_batches (perform now c ?s))
      \<and> credits (credit_batches (perform now c ?s) ! i) = credits (credit_batches ?s ! i)
      \<and> subscription_type (credit_batches (perform now c ?s) ! i)
           = subscription_type (credit_batches ?s ! i)
      \<and> ((\<forall>u n name aid. c \<noteq> Deduct_credits u n name aid) \<longrightarrow>
           credit_batches (perform now c ?s) ! i = credit_batches ?s ! i)
      \<and> ((\<forall>u n name aid. c = Deduct_credits u n name aid \<longrightarrow> 0 \<le> n) \<longrightarrow>
           used_credits (credit_batches ?s ! i)
             \<le> used_credits (credit_batches (perform now c ?s) ! i))"
  proof (intro allI impI)
    fix i assume i: "i < length (credit_batches ?s)"
    note rows = perform_rows[OF pk i, where now = now and c = c]
    have "i < length (credit_batches (perform now c ?s))" using rows(1) i by simp
    with rows(2-5) show "i < length (credit_batches (perform now c ?s))
      \<and> credits (credit_batches (perform now c ?s) ! i) = credits (credit_batches ?s ! i)
      \<and> subscription_type (credit_batches (perform now c ?s) ! i)
           = subscription_type (credit_batches ?s ! i)
      \<and> ((\<forall>u n name aid. c \<noteq> Deduct_credits u n name aid) \<longrightarrow>
           credit_batches (perform now c ?s) ! i = credit_batches ?s ! i)
      \<and> ((\<forall>u n name aid. c = Deduct_credits u n name aid \<longrightarrow> 0 \<le> n) \<longrightarrow>
           used_credits (credit_batches ?s ! i)
             \<le> used_credits (credit_batches (perform now c ?s) ! i))"
      by blast
  qed
  from c0 c1 c2 show ?thesis by blast
qed

text \<open>
  C8 as stated, for arbitrary amounts, fails: deducting \<open>-3\<close> from a fresh batch of 5
  takes its \<open>used_credits\<close> from 0 to \<open>-3\<close>, and a batch allocated with size \<open>-5\<close> has
  \<open>used_credits = 0\<close> above its size.
\<close>

theorem consumed_negative:
  "map used_credits (credit_batches
      (run [(100, Add_credits 7 5 ''free'' 30), (200, Deduct_credits 7 (-3) ''essay'' None)]
         empty_ledger)) = [-3]
   \<and> map used_credits (credit_batches (run [(100, Add_credits 7 5 ''free'' 30)] empty_ledger)) = [0]
   \<and> map credits (credit_batches (run [(100, Add_credits 7 (-5) ''free'' 30)] empty_ledger)) = [-5]
   \<and> map used_credits (credit_batches (run [(100, Add_credits 7 (-5) ''free'' 30)] empty_ledger))
       = [0]"
  by (simp add: call_defs ledger_defs)

theorem consumed_within_size_witness:
  "map snd example_calls =
     [Add_credits 7 5 ''free'' 30, Add_plan_credits 7 ''student_monthly'',
      Deduct_credits 7 8 ''essay'' None]
   \<and> map credits (credit_batches (run example_calls empty_ledger)) = [5, 50]
   \<and> map used_credits (credit_batches (run example_calls empty_ledger)) = [5, 3]
   \<and> map credits
       (credit_batches (perform 300 (Deduct_credits 7 4 ''quiz'' None)
          (run example_calls empty_ledger))) = [5, 50]
   \<and> map used_credits
       (credit_batches (perform 300 (Deduct_credits 7 4 ''quiz'' None)
          (run example_calls empty_ledger))) = [5, 7]
   \<and> map used_credits
       (credit_batches (perform 300 (Add_credits 7 20 ''pro'' 30)
          (run example_calls empty_ledger))) = [5, 3, 0]"
proof -
  have nonneg: "\<forall>now u n name aid.
      (now, Deduct_credits u n name aid) \<in> set example_calls \<longrightarrow> 0 \<le> n"
    by (simp add: example_calls_def)
  have deduct: "map used_credits
       (credit_batches (perform 300 (Deduct_credits 7 4 ''quiz'' None)
          (run example_calls empty_ledger))) = [5, 7]"
    and sizes: "map credits
       (credit_batches (perform 300 (Deduct_credits 7 4 ''quiz'' None)
          (run example_calls empty_ledger))) = [5, 50]"
    unfolding run_example_calls by (simp_all add: ledger_defs)
  have add: "map used_credits
       (credit_batches (perform 300 (Add_credits 7 20 ''pro'' 30)
          (run example_calls empty_ledger))) = [5, 3, 0]"
    unfolding run_example_calls by (simp add: add_credits_char new_batch_def)
  from consumed_within_size[where cs = example_calls and now = 300
      and c = "Deduct_credits 7 4 ''quiz'' None"]
    consumed_within_size[where cs = example_calls and now = 300
      and c = "Add_credits 7 20 ''pro'' 30"]
    nonneg deduct sizes add
  show ?thesis by (simp add: run_example_calls) (simp add: example_calls_def)
qed



text \<open>
  C10, as amended. A requested amount that is zero or negative. When the owner has no
  active batch and the query can subtract on the owner's rows, \<open>deduct_credits\<close>
  returns false and the ledger is as it was. When the owner has an active batch, the
  first of the query is an active batch of the owner that no other active batch
  precedes in \<open>expires_at\<close>; if the query can subtract on the owner's rows and the
  \<open>used_credits\<close> of that batch plus the amount is an \<^verbatim>\<open>INTEGER\<close>, the call returns
  true, the amount is added to the \<open>used_credits\<close> of that batch, which therefore falls
  when the amount is negative, no other row changes, and exactly one usage row is
  inserted, carrying that amount. Otherwise the call raises \<^verbatim>\<open>integer out of range\<close>
  and the ledger is as it was.
\<close>

theorem deduct_credits_nonpositive:
  assumes "primary_key s" and "n \<le> 0"
  shows "(available_in_range p now s
         \<and> (\<forall>row \<in> set (credit_batches s).
             \<not> (b_user_id row = p \<and> expires_at row > now \<and> credits row - used_credits row > 0))
           \<longrightarrow> deduct_credits p n name aid now s = Inr (False, s))
       \<and> (\<forall>b rest. select_batches p now s = b # rest \<longrightarrow>
             b \<in> set (credit_batches s)
           \<and> b_user_id b = p \<and> expires_at b > now \<and> credits b - used_credits b > 0
           \<and> (\<forall>row \<in> set (credit_batches s).
                 b_user_id row = p \<and> expires_at row > now \<and> credits row - used_credits row > 0
                   \<longrightarrow> expires_at b \<le> expires_at row)
           \<and> (available_in_range p now s \<and> int4 (used_credits b + n) \<longrightarrow>
                deduct_credits p n name aid now s =
                  Inr (True,
                    s\<lparr>credit_batches :=
                        map (\<lambda>row. if row = b
                                    then row\<lparr>used_credits := used_credits row + n,
                                             b_updated_at := now\<rparr>
                                    else row) (credit_batches s),
                      credit_usage := credit_usage s @
                        [\<lparr>u_id = next_uuid s, u_user_id = p, batch_id = b_id b, credits_used = n,
                          assignment_name = name, assignment_id = aid, u_created_at = now\<rparr>],
                      next_uuid := Suc (next_uuid s)\<rparr>))
           \<and> (\<not> int4 (used_credits b + n) \<longrightarrow>
                deduct_credits p n name aid now s = Inl integer_out_of_range
              \<and> perform now (Deduct_credits p n name aid) s = s))
       \<and> (\<not> available_in_range p now s \<longrightarrow>
           deduct_credits p n name aid now s = Inl integer_out_of_range
         \<and> perform now (Deduct_credits p n name aid) s = s)"
proof -
  let ?A = "select_batches p now s"
  note char = deduct_credits_char[OF assms(1), of p n name aid now]
  have c1: "available_in_range p now s
         \<and> (\<forall>row \<in> set (credit_batches s).
             \<not> (b_user_id row = p \<and> expires_at row > now \<and> credits row - used_credits row > 0))
           \<longrightarrow> deduct_credits p n name aid now s = Inr (False, s)"
  proof
    assume h: "available_in_range p now s
         \<and> (\<forall>row \<in> set (credit_batches s).
             \<not> (b_user_id row = p \<and> expires_at row > now \<and> credits row - used_credits row > 0))"
    then have "set ?A = {}" by (auto simp: select_batches_set selected_def)
    then have "?A = []" by simp
    then show "deduct_credits p n name aid now s = Inr (False, s)"
      using h by (simp add: deduct_credits_def)
  qed
  have c3: "\<not> available_in_range p now s \<longrightarrow>
           deduct_credits p n name aid now s = Inl integer_out_of_range
         \<and> perform now (Deduct_credits p n name aid) s = s"
    by (simp add: deduct_credits_def)
  have c2: "\<forall>b rest. ?A = b # rest \<longrightarrow>
             b \<in> set (credit_batches s)
           \<and> b_user_id b = p \<and> expires_at b > now \<and> credits b - used_credits b > 0
           \<and> (\<forall>row \<in> set (credit_batches s).
                 b_user_id row = p \<and> expires_at row > now \<and> credits row - used_credits row > 0
                   \<longrightarrow> expires_at b \<le> expires_at row)
           \<and> (available_in_range p now s \<and> int4 (used_credits b + n) \<longrightarrow>
                deduct_credits p n name aid now s =
                  Inr (True,
                    s\<lparr>credit_batches :=
                        map (\<lambda>row. if row = b
                                    then row\<lparr>used_credits := used_credits row + n,
                                             b_updated_at := now\<rparr>
                                    else row) (credit_batches s),
                      credit_usage := credit_usage s @
                        [\<lparr>u_id = next_uuid s, u_user_id = p, batch_id = b_id b, credits_used = n,
                          assignment_name = name, assignment_id = aid, u_created_at = now\<rparr>],
                      next_uuid := Suc (next_uuid s)\<rparr>))
           \<and> (\<not> int4 (used_credits b + n) \<longrightarrow>
                deduct_credits p n name aid now s = Inl integer_out_of_range
              \<and> perform now (Deduct_credits p n name aid) s = s)"
  proof (intro allI impI)
    fix b rest assume A: "?A = b # rest"
    then have bA: "b \<in> set ?A" by simp
    then have bin: "b \<in> set (credit_batches s)" and bsel: "selected p now b"
      by (simp_all add: select_batches_set)
    have pos: "0 < credits b - used_credits b" using bsel by (simp add: selected_def)
    have ds: "deductions ?A n = [(b_id b, n)]" and cov: "covered ?A n"
      using A pos assms(2) by simp_all
    have fits: "available_in_range p now s \<Longrightarrow> fits ?A n \<longleftrightarrow> int4 (used_credits b + n)"
      using select_batches_in_range[of p now s] bA A pos assms(2) by auto
    have first: "\<forall>row \<in> set (credit_batches s).
                 b_user_id row = p \<and> expires_at row > now \<and> credits row - used_credits row > 0
                   \<longrightarrow> expires_at b \<le> expires_at row"
    proof (intro ballI impI)
      fix row assume "row \<in> set (credit_batches s)"
        and "b_user_id row = p \<and> expires_at row > now \<and> credits row - used_credits row > 0"
      then have "row \<in> set ?A" by (simp add: select_batches_set selected_def)
      then have "expires_at row \<in> set (map expires_at ?A)" by simp
      moreover have "sorted (map expires_at ?A)" by (rule select_batches_sorted)
      ultimately show "expires_at b \<le> expires_at row" using A by auto
    qed
    have tbl: "map (charge [(b_id b, n)] now) (credit_batches s) =
                map (\<lambda>row. if row = b
                            then row\<lparr>used_credits := used_credits row + n, b_updated_at := now\<rparr>
                            else row) (credit_batches s)"
    proof (rule map_cong[OF refl])
      fix row assume "row \<in> set (credit_batches s)"
      then have "b_id row = b_id b \<longleftrightarrow> row = b"
        using primary_key_row[OF assms(1) bin] by auto
      then show "charge [(b_id b, n)] now row =
          (if row = b then row\<lparr>used_credits := used_credits row + n, b_updated_at := now\<rparr> else row)"
        by (simp add: charge_def)
    qed
    have ret: "available_in_range p now s \<and> int4 (used_credits b + n) \<longrightarrow>
                deduct_credits p n name aid now s =
                  Inr (True,
                    s\<lparr>credit_batches :=
                        map (\<lambda>row. if row = b
                                    then row\<lparr>used_credits := used_credits row + n,
                                             b_updated_at := now\<rparr>
                                    else row) (credit_batches s),
                      credit_usage := credit_usage s @
                        [\<lparr>u_id = next_uuid s, u_user_id = p, batch_id = b_id b, credits_used = n,
                          assignment_name = name, assignment_id = aid, u_created_at = now\<rparr>],
                      next_uuid := Suc (next_uuid s)\<rparr>)"
      unfolding char using fits cov by (simp add: ds tbl)
    have err: "\<not> int4 (used_credits b + n) \<longrightarrow>
                deduct_credits p n name aid now s = Inl integer_out_of_range
              \<and> perform now (Deduct_credits p n name aid) s = s"
      using fits by (cases "available_in_range p now s") (simp_all add: char)
    from bin bsel first ret err
    show "b \<in> set (credit_batches s)
           \<and> b_user_id b = p \<and> expires_at b > now \<and> credits b - used_credits b > 0
           \<and> (\<forall>row \<in> set (credit_batches s).
                 b_user_id row = p \<and> expires_at row > now \<and> credits row - used_credits row > 0
                   \<longrightarrow> expires_at b \<le> expires_at row)
           \<and> (available_in_range p now s \<and> int4 (used_credits b + n) \<longrightarrow>
                deduct_credits p n name aid now s =
                  Inr (True,
                    s\<lparr>credit_batches :=
                        map (\<lambda>row. if row = b
                                    then row\<lparr>used_credits := used_credits row + n,
                                             b_updated_at := now\<rparr>
                                    else row) (credit_batches s),
                      credit_usage := credit_usage s @
                        [\<lparr>u_id = next_uuid s, u_user_id = p, batch_id = b_id b, credits_used = n,
                          assignment_name = name, assignment_id = aid, u_created_at = now\<rparr>],
                      next_uuid := Suc (next_uuid s)\<rparr>))
           \<and> (\<not> int4 (used_credits b + n) \<longrightarrow>
                deduct_credits p n name aid now s = Inl integer_out_of_range
              \<and> perform now (Deduct_credits p n name aid) s = s)"
      by (simp add: selected_def)
  qed
  from c1 c2 c3 show ?thesis by blast
qed

text \<open>
  C10 as stated fails where the sum leaves the range of \<^verbatim>\<open>INTEGER\<close>. After 5 free
  credits and a deduction of \<open>-3\<close> the owner has one active batch, of 5 credits with
  \<open>-3\<close> used; deducting \<open>-2147483647\<close> then computes \<open>-2147483650\<close> for its
  \<open>used_credits\<close>: the call raises instead of returning true, and nothing changes.
\<close>

theorem deduct_credits_nonpositive_raises:
  "map credits (select_batches 7 300 (run [(100, Add_credits 7 5 ''free'' 30), (200, Deduct_credits 7 (-3) ''essay'' None)] empty_ledger)) = [5]
   \<and> map used_credits (select_batches 7 300 (run [(100, Add_credits 7 5 ''free'' 30), (200, Deduct_credits 7 (-3) ''essay'' None)] empty_ledger)) = [-3]
   \<and> int4 (-2147483647)
   \<and> deduct_credits 7 (-2147483647) ''essay'' None 300 (run [(100, Add_credits 7 5 ''free'' 30), (200, Deduct_credits 7 (-3) ''essay'' None)] empty_ledger)
       = Inl integer_out_of_range"
  by (simp add: call_defs ledger_defs)

theorem deduct_credits_nonpositive_witness:
  "primary_key two_batches \<and> (-3::int) \<le> 0
   \<and> select_batches 7 100 two_batches = [batch_row 1 7 5 3 (days 5), batch_row 0 7 10 0 (days 30)]
   \<and> int4 (used_credits (batch_row 1 7 5 3 (days 5)) + (-3))
   \<and> deduct_credits 7 (-3) ''essay'' None 100 two_batches =
       Inr (True,
        \<lparr>credit_batches =
           [batch_row 0 7 10 0 (days 30), (batch_row 1 7 5 0 (days 5))\<lparr>b_updated_at := 100\<rparr>],
         credit_usage =
           [\<lparr>u_id = 2, u_user_id = 7, batch_id = 1, credits_used = -3,
             assignment_name = ''essay'', assignment_id = None, u_created_at = 100\<rparr>],
         next_uuid = 3\<rparr>)
   \<and> primary_key (run [(100, Add_credits 7 5 ''free'' 30), (200, Deduct_credits 7 (-3) ''essay'' None)] empty_ledger)
   \<and> map used_credits (select_batches 7 300 (run [(100, Add_credits 7 5 ''free'' 30), (200, Deduct_credits 7 (-3) ''essay'' None)] empty_ledger)) = [-3]
   \<and> \<not> int4 (-3 + (-2147483647))
   \<and> perform 300 (Deduct_credits 7 (-2147483647) ''essay'' None) (run [(100, Add_credits 7 5 ''free'' 30), (200, Deduct_credits 7 (-3) ''essay'' None)] empty_ledger)
       = run [(100, Add_credits 7 5 ''free'' 30), (200, Deduct_credits 7 (-3) ''essay'' None)] empty_ledger
   \<and> primary_key empty_ledger
   \<and> deduct_credits 7 (-3) ''essay'' None 100 empty_ledger = Inr (False, empty_ledger)"
proof -
  have pk: "primary_key two_batches"
    by (simp add: two_batches_def ledger_defs)
  have sel: "select_batches 7 100 two_batches =
      [batch_row 1 7 5 3 (days 5), batch_row 0 7 10 0 (days 30)]"
    by (simp add: two_batches_def ledger_defs)
  have rng: "available_in_range 7 100 two_batches"
    "int4 (used_credits (batch_row 1 7 5 3 (days 5)) + (-3))"
    by (simp_all add: two_batches_def ledger_defs)
  have tbl: "two_batches\<lparr>credit_batches :=
           map (\<lambda>row. if row = batch_row 1 7 5 3 (days 5)
                       then row\<lparr>used_credits := used_credits row + (-3), b_updated_at := 100\<rparr>
                       else row) (credit_batches two_batches),
         credit_usage := credit_usage two_batches @
           [\<lparr>u_id = next_uuid two_batches, u_user_id = 7,
             batch_id = b_id (batch_row 1 7 5 3 (days 5)), credits_used = -3,
             assignment_name = ''essay'', assignment_id = None, u_created_at = 100\<rparr>],
         next_uuid := Suc (next_uuid two_batches)\<rparr> =
        \<lparr>credit_batches =
           [batch_row 0 7 10 0 (days 30), (batch_row 1 7 5 0 (days 5))\<lparr>b_updated_at := 100\<rparr>],
         credit_usage =
           [\<lparr>u_id = 2, u_user_id = 7, batch_id = 1, credits_used = -3,
             assignment_name = ''essay'', assignment_id = None, u_created_at = 100\<rparr>],
         next_uuid = 3\<rparr>"
    by (simp add: two_batches_def batch_row_def days_def)
  define r where "r = run [(100, Add_credits 7 5 ''free'' 30), (200, Deduct_credits 7 (-3) ''essay'' None)] empty_ledger"
  have r: "r = \<lparr>credit_batches =
        [\<lparr>b_id = 0, b_user_id = 7, credits = 5, used_credits = -3, subscription_type = ''free'',
          expires_at = 100 + days 30, b_created_at = 100, b_updated_at = 200\<rparr>],
      credit_usage =
        [\<lparr>u_id = 1, u_user_id = 7, batch_id = 0, credits_used = -3,
          assignment_name = ''essay'', assignment_id = None, u_created_at = 200\<rparr>],
      next_uuid = 2\<rparr>"
    unfolding r_def by (simp add: call_defs ledger_defs)
  have pk1: "primary_key r" unfolding r by (simp add: primary_key_def)
  have sel1: "select_batches 7 300 r =
        [\<lparr>b_id = 0, b_user_id = 7, credits = 5, used_credits = -3, subscription_type = ''free'',
          expires_at = 100 + days 30, b_created_at = 100, b_updated_at = 200\<rparr>]"
    unfolding r by (simp add: ledger_defs)
  have rng1: "\<not> int4 (-3 + (-2147483647))" by (simp add: int4_def)
  have raises: "perform 300 (Deduct_credits 7 (-2147483647) ''essay'' None) r = r"
    using deduct_credits_nonpositive[OF pk1, of "-2147483647" 7 300 "''essay''" None] sel1 rng1
    by simp
  have pk0: "primary_key empty_ledger"
    and rng0: "available_in_range 7 100 empty_ledger"
    by (simp_all add: empty_ledger_def ledger_defs)
  have none: "\<forall>row \<in> set (credit_batches empty_ledger).
      \<not> (b_user_id row = 7 \<and> expires_at row > 100 \<and> credits row - used_credits row > 0)"
    by (simp add: empty_ledger_def)
  have "deduct_credits 7 (-3) ''essay'' None 100 two_batches =
       Inr (True,
        \<lparr>credit_batches =
           [batch_row 0 7 10 0 (days 30), (batch_row 1 7 5 0 (days 5))\<lparr>b_updated_at := 100\<rparr>],
         credit_usage =
           [\<lparr>u_id = 2, u_user_id = 7, batch_id = 1, credits_used = -3,
             assignment_name = ''essay'', assignment_id = None, u_created_at = 100\<rparr>],
         next_uuid = 3\<rparr>)"
    using deduct_credits_nonpositive[OF pk, of "-3" 7 100 "''essay''" None] sel rng tbl by simp
  moreover have "deduct_credits 7 (-3) ''essay'' None 100 empty_ledger = Inr (False, empty_ledger)"
    using deduct_credits_nonpositive[OF pk0, of "-3" 7 100 "''essay''" None] rng0 none by simp
  ultimately show ?thesis
    using pk sel rng pk1 sel1 rng1 raises pk0 unfolding r_def by simp
qed

end
